theory Spec2Isabelle
  imports Main
begin

section \<open>Outbound lead messaging: dispatch, locking and the log store\<close>

text \<open>
  The repository holds two revisions of \<^verbatim>\<open>app.js\<close>. The earlier one
  (\<^verbatim>\<open>src/unnamed/part_000\<close>) tracks read receipts
  (\<^verbatim>\<open>updateLogWithSeenStatus\<close>) and runs the cycle in two passes; the later one
  (\<^verbatim>\<open>src/unnamed/part_002\<close>, after the setup wizard) drops receipt tracking, bundles the
  catalog with the welcome message and adds a process-wide running flag. A constant
  whose name ends in \<open>_v2\<close> embeds the later revision; a constant whose name ends in
  \<open>_v1\<close> embeds the earlier one; a constant with neither suffix embeds code that reads
  the same in both.

  JavaScript strings are modelled as \<^typ>\<open>string\<close>, one \<^typ>\<open>char\<close> per code unit below
  256.
\<close>

subsection \<open>String primitives of the host language\<close>

definition startsWith :: "string \<Rightarrow> string \<Rightarrow> bool" where
  "startsWith s p = (take (length p) s = p)"

definition endsWith :: "string \<Rightarrow> string \<Rightarrow> bool" where
  "endsWith s p = (length p \<le> length s \<and> drop (length s - length p) s = p)"

fun includesStr :: "string \<Rightarrow> string \<Rightarrow> bool" where
  "includesStr [] sub = (sub = [])"
| "includesStr (c # cs) sub = (if startsWith (c # cs) sub then True else includesStr cs sub)"

definition isDigit :: "char \<Rightarrow> bool" where
  "isDigit c = (c \<in> set ''0123456789'')"

text \<open>White space as \<^verbatim>\<open>String.prototype.trim\<close> sees it, among the code units below 256:
  tab, line feed, vertical tab, form feed, carriage return, space, no-break space.\<close>

definition isSpace :: "char \<Rightarrow> bool" where
  "isSpace c = (c \<in> set [CHR 0x09, CHR 0x0A, CHR 0x0B, CHR 0x0C, CHR 0x0D, CHR 0x20, CHR 0xA0])"

definition trim :: "string \<Rightarrow> string" where
  "trim s = rev (dropWhile isSpace (rev (dropWhile isSpace s)))"

text \<open>\<^verbatim>\<open>toLowerCase\<close>: the letters A to Z, and the upper-case letters of Latin-1, move
  down by 32; every other code unit below 256 stays.\<close>

definition lowerChar :: "char \<Rightarrow> char" where
  "lowerChar c =
     (let n = (of_char c :: nat)
      in if (65 \<le> n \<and> n \<le> 90) \<or> (192 \<le> n \<and> n \<le> 222 \<and> n \<noteq> 215)
         then char_of (n + 32) else c)"

definition toLowerCase :: "string \<Rightarrow> string" where
  "toLowerCase s = map lowerChar s"

text \<open>\<^verbatim>\<open>s.split(c)\<close> for a one-character separator: never the empty list.\<close>

fun split :: "char \<Rightarrow> string \<Rightarrow> string list" where
  "split sep [] = [[]]"
| "split sep (c # cs) =
     (if c = sep then [] # split sep cs
      else (case split sep cs of
              [] \<Rightarrow> [[c]]
            | r # rs \<Rightarrow> (c # r) # rs))"

text \<open>\<^verbatim>\<open>rows.join(sep)\<close>.\<close>

fun join :: "string \<Rightarrow> string list \<Rightarrow> string" where
  "join sep [] = []"
| "join sep [r] = r"
| "join sep (r # rs) = r @ sep @ join sep rs"

text \<open>\<^verbatim>\<open>String(n)\<close> for a non-negative integer.\<close>

definition digitChar :: "int \<Rightarrow> char" where
  "digitChar d = ''0123456789'' ! nat (d mod 10)"

function decimal :: "int \<Rightarrow> string" where
  "decimal n = (if n < 10 then [digitChar n] else decimal (n div 10) @ [digitChar n])"
  by pat_completeness auto
termination
  by (relation "measure nat") auto

declare decimal.simps [simp del]

definition digitVal :: "char \<Rightarrow> int" where
  "digitVal c = of_char c - 48"

text \<open>The number a run of decimal digits denotes.\<close>

definition digitsVal :: "string \<Rightarrow> int" where
  "digitsVal ds = foldl (\<lambda>acc c. 10 * acc + digitVal c) 0 ds"

text \<open>\<^verbatim>\<open>s.padStart(2, '0')\<close>.\<close>

definition padStart2 :: "string \<Rightarrow> string" where
  "padStart2 s = replicate (2 - length s) CHR ''0'' @ s"

subsection \<open>Numbers: \<^verbatim>\<open>parseFloat\<close> and \<^verbatim>\<open>toFixed(0)\<close>\<close>

text \<open>
  A Number is not-a-number, an infinity, or a finite double \<open>\<plusminus> m \<times> 2\<^sup>e\<close> with
  \<open>m \<ge> 0\<close>; the flag is the sign.
\<close>

datatype jsnum = NaN | Infinite bool | Finite bool int int

function bitlen :: "int \<Rightarrow> int" where
  "bitlen n = (if n \<le> 0 then 0 else 1 + bitlen (n div 2))"
  by pat_completeness auto
termination
  by (relation "measure nat") auto

declare bitlen.simps [simp del]

text \<open>
  \<open>scaled p q e\<close> is the quotient and the remainder of \<open>p / (q \<times> 2\<^sup>e)\<close>, with the
  divisor they refer to.
\<close>

definition scaled :: "int \<Rightarrow> int \<Rightarrow> int \<Rightarrow> int \<times> int \<times> int" where
  "scaled p q e =
     (let n = (if e < 0 then p * 2 ^ nat (- e) else p);
          d = (if e < 0 then q else q * 2 ^ nat e)
      in (n div d, n mod d, d))"

definition roundEven :: "int \<times> int \<times> int \<Rightarrow> int" where
  "roundEven t =
     (case t of (qt, r, d) \<Rightarrow> if 2 * r > d \<or> (2 * r = d \<and> odd qt) then qt + 1 else qt)"

text \<open>
  The Number value for the positive rational \<open>p / q\<close>: the nearest double, ties to
  the even significand; 53 significant bits, no exponent below \<open>-1074\<close>, and an
  infinity from \<open>2\<^sup>1\<^sup>0\<^sup>2\<^sup>4\<close> on.
\<close>

definition nearestDouble :: "bool \<Rightarrow> int \<Rightarrow> int \<Rightarrow> jsnum" where
  "nearestDouble neg p q =
     (if p \<le> 0 then Finite neg 0 0
      else
        let e1 = bitlen p - bitlen q - 53;
            e2 = (if fst (scaled p q e1) < 2 ^ 53 then e1 else e1 + 1);
            e = max e2 (- 1074);
            m = roundEven (scaled p q e)
        in if e \<ge> 0 \<and> m * 2 ^ nat e \<ge> 2 ^ 1024 then Infinite neg
           else Finite neg m e)"

text \<open>
  \<^verbatim>\<open>parseFloat(s)\<close>: leading white space is skipped, the longest prefix that is a
  decimal literal (sign, \<^verbatim>\<open>Infinity\<close> or digits with an optional fraction and an
  optional exponent) is read, and its value is rounded to a double. No such prefix
  gives not-a-number.
\<close>

definition parseExponent :: "string \<Rightarrow> int" where
  "parseExponent r =
     (case r of
        [] \<Rightarrow> 0
      | c # r1 \<Rightarrow>
          if c = CHR ''e'' \<or> c = CHR ''E'' then
            (let neg = startsWith r1 ''-'';
                 r2 = (if startsWith r1 ''+'' \<or> startsWith r1 ''-'' then tl r1 else r1);
                 ds = takeWhile isDigit r2
             in if ds = [] then 0
                else if neg then - digitsVal ds else digitsVal ds)
          else 0)"

definition parseFloat :: "string \<Rightarrow> jsnum" where
  "parseFloat s =
     (let t = dropWhile isSpace s;
          neg = startsWith t ''-'';
          u = (if startsWith t ''+'' \<or> startsWith t ''-'' then tl t else t)
      in if startsWith u ''Infinity'' then Infinite neg
         else
           let ip = takeWhile isDigit u;
               r1 = dropWhile isDigit u;
               hasDot = startsWith r1 ''.'';
               fp = (if hasDot then takeWhile isDigit (tl r1) else []);
               r2 = (if hasDot then dropWhile isDigit (tl r1) else r1)
           in if ip = [] \<and> fp = [] then NaN
              else
                let k = parseExponent r2 - int (length fp);
                    m = digitsVal (ip @ fp)
                in if k \<ge> 0 then nearestDouble neg (m * 10 ^ nat k) 1
                   else nearestDouble neg m (10 ^ nat (- k)))"

text \<open>
  The shortest decimal that reads back as the double \<open>x\<close>, for an integral
  \<open>x \<ge> 10\<^sup>2\<^sup>1\<close> (\<^verbatim>\<open>Number::toString\<close>): among the decimals of \<open>k\<close> significant
  digits next to \<open>x\<close>, for the least \<open>k\<close> that has one rounding to \<open>x\<close>, the one
  nearest to \<open>x\<close>.
\<close>

definition readsBack :: "int \<Rightarrow> int \<Rightarrow> bool" where
  "readsBack x v =
     (case nearestDouble False v 1 of
        Finite _ m e \<Rightarrow> e \<ge> 0 \<and> m * 2 ^ nat e = x
      | _ \<Rightarrow> False)"

definition shortestAt :: "int \<Rightarrow> nat \<Rightarrow> int option" where
  "shortestAt x k =
     (let u = 10 ^ (length (decimal x) - k);
          lo = (x div u) * u;
          hi = lo + u;
          okLo = readsBack x lo;
          okHi = readsBack x hi
      in if okLo \<and> okHi then
           (if x - lo < hi - x then Some lo
            else if hi - x < x - lo then Some hi
            else if even (x div u) then Some lo else Some hi)
         else if okLo then Some lo
         else if okHi then Some hi
         else None)"

definition shortest :: "int \<Rightarrow> int" where
  "shortest x =
     (case List.map_filter (shortestAt x) [1 ..< 18] of
        [] \<Rightarrow> x
      | v # _ \<Rightarrow> v)"

definition stripZeros :: "string \<Rightarrow> string" where
  "stripZeros ds = rev (dropWhile (\<lambda>c. c = CHR ''0'') (rev ds))"

definition exponential :: "int \<Rightarrow> string" where
  "exponential x =
     (let ds = decimal (shortest x);
          s = stripZeros ds;
          ex = ''e+'' @ decimal (int (length ds) - 1)
      in if length s \<le> 1 then s @ ex else hd s # ''.'' @ tl s @ ex)"

text \<open>
  \<^verbatim>\<open>x.toFixed(0)\<close>: a non-finite number prints its name; a finite one below
  \<open>10\<^sup>2\<^sup>1\<close> prints the integer nearest to it (the larger of two), and from
  \<open>10\<^sup>2\<^sup>1\<close> on it prints as \<^verbatim>\<open>String(x)\<close> does, in exponent notation.
\<close>

definition toFixed0 :: "jsnum \<Rightarrow> string" where
  "toFixed0 x =
     (case x of
        NaN \<Rightarrow> ''NaN''
      | Infinite neg \<Rightarrow> (if neg then ''-Infinity'' else ''Infinity'')
      | Finite neg m e \<Rightarrow>
          (let sgn = (if neg \<and> m \<noteq> 0 then ''-'' else [])
           in if e \<ge> 0 then
                (let v = m * 2 ^ nat e
                 in if v \<ge> 10 ^ 21 then sgn @ exponential v else sgn @ decimal v)
              else
                sgn @ decimal ((2 * m + 2 ^ nat (- e)) div 2 ^ (nat (- e) + 1))))"

subsection \<open>Phone Normalizer\<close>

text \<open>
  \<^verbatim>\<open>normalizePhone\<close> of the earlier revision. Every caller passes a string, on which
  \<^verbatim>\<open>String(phone)\<close> is the identity.
\<close>

definition sciRepair :: "string \<Rightarrow> string" where
  "sciRepair phoneStr =
     (if includesStr phoneStr ''E+'' \<or> includesStr phoneStr ''e+''
      then toFixed0 (parseFloat phoneStr) else phoneStr)"

definition normalizePhone_v1 :: "string \<Rightarrow> string" where
  "normalizePhone_v1 phone =
     (let phoneStr = sciRepair (trim phone);
          digits = filter isDigit phoneStr
      in if length digits = 10 then ''91'' @ digits
         else if startsWith digits ''0'' then
           (let digits' = drop 1 digits
            in if length digits' = 10 then ''91'' @ digits' else digits')
         else digits)"

text \<open>\<^verbatim>\<open>normalizePhone\<close> of the later revision: a plus sign survives the filter, and
  one leading plus sign is dropped.\<close>

definition normalizePhone_v2 :: "string \<Rightarrow> string" where
  "normalizePhone_v2 phone =
     (let phoneStr = sciRepair (trim phone);
          kept = filter (\<lambda>c. isDigit c \<or> c = CHR ''+'') phoneStr;
          digits = (if startsWith kept ''+'' then drop 1 kept else kept)
      in if length digits = 10 then ''91'' @ digits
         else if length digits = 12 \<and> startsWith digits ''91'' then digits
         else if length digits = 11 \<and> startsWith digits ''0'' then ''91'' @ drop 1 digits
         else digits)"

subsection \<open>Log Store: entries and the single-writer queue\<close>

text \<open>
  A \<^verbatim>\<open>Date\<close> as the code reads it: the local calendar fields and the time value in
  milliseconds.
\<close>

record jsDate =
  fullYear :: int
  monthIndex :: int
  dayOfMonth :: int
  hours :: int
  minutes :: int
  seconds :: int
  timeValue :: int

text \<open>\<^verbatim>\<open>String(n)\<close> for an integer of either sign.\<close>

definition showInt :: "int \<Rightarrow> string" where
  "showInt n = (if n < 0 then ''-'' @ decimal (- n) else decimal n)"

text \<open>The timestamp template of \<^verbatim>\<open>safeLogMessage\<close> and
  \<^verbatim>\<open>updateLogWithSeenStatus\<close>: \<^verbatim>\<open>YYYY-MM-DD HH:MM:SS\<close>.\<close>

definition formatTimestamp :: "jsDate \<Rightarrow> string" where
  "formatTimestamp d =
     showInt (fullYear d) @ ''-'' @ padStart2 (showInt (monthIndex d + 1)) @ ''-'' @
     padStart2 (showInt (dayOfMonth d)) @ '' '' @ padStart2 (showInt (hours d)) @ '':'' @
     padStart2 (showInt (minutes d)) @ '':'' @ padStart2 (showInt (seconds d))"

text \<open>\<^verbatim>\<open>s.replace(/,/g, ' ')\<close>.\<close>

definition replaceCommas :: "string \<Rightarrow> string" where
  "replaceCommas s = map (\<lambda>c. if c = CHR '','' then CHR '' '' else c) s"

text \<open>\<^verbatim>\<open>s.replace(/\r?\n/g, ' ')\<close>: a line feed, with the carriage return before it
  when there is one, becomes one space.\<close>

fun replaceNewlines :: "string \<Rightarrow> string" where
  "replaceNewlines [] = []"
| "replaceNewlines [c] = (if c = CHR 0x0A then '' '' else [c])"
| "replaceNewlines (c # d # cs) =
     (if c = CHR 0x0D \<and> d = CHR 0x0A then CHR '' '' # replaceNewlines cs
      else if c = CHR 0x0A then CHR '' '' # replaceNewlines (d # cs)
      else c # replaceNewlines (d # cs))"

text \<open>The name field of an entry:
  \<^verbatim>\<open>String(name || '').replace(/,/g, ' ').replace(/\r?\n/g, ' ').trim()\<close>.\<close>

definition sanitizeName :: "string \<Rightarrow> string" where
  "sanitizeName n = trim (replaceNewlines (replaceCommas n))"

record entry =
  phone :: string
  name :: string
  timestamp :: string
  status :: string
  seenTimestamp :: string
  timeToSee :: string
  lastUpdated :: string

text \<open>
  The entry \<^verbatim>\<open>safeLogMessage(type, phone, name, status)\<close> builds, given the
  revision's normalizer and the clock. No caller passes the two trailing arguments
  of the earlier revision, which default to the empty string; the later revision's
  entry has the first four fields only.
\<close>

definition mkEntry :: "(string \<Rightarrow> string) \<Rightarrow> jsDate \<Rightarrow> string \<Rightarrow> string \<Rightarrow> string \<Rightarrow> entry" where
  "mkEntry norm now ph nm st =
     \<lparr>phone = norm ph, name = sanitizeName nm, timestamp = formatTimestamp now, status = st,
      seenTimestamp = [], timeToSee = [], lastUpdated = formatTimestamp now\<rparr>"

definition mainHeader_v1 :: string where
  "mainHeader_v1 = ''Phone,Name,Timestamp,Status,SeenTimestamp,TimeToSee,LastUpdated'' @ [CHR 0x0A]"

definition mainRow_v1 :: "entry \<Rightarrow> string" where
  "mainRow_v1 e =
     phone e @ '','' @ name e @ '','' @ timestamp e @ '','' @ status e @ '','' @
     seenTimestamp e @ '','' @ timeToSee e @ '','' @ lastUpdated e"

definition mainLine_v1 :: "entry \<Rightarrow> string" where
  "mainLine_v1 e = mainRow_v1 e @ [CHR 0x0A]"

text \<open>The four-column header and line: the main log of the later revision, and the
  catalog log of both.\<close>

definition shortHeader :: string where
  "shortHeader = ''Phone,Name,Timestamp,Status'' @ [CHR 0x0A]"

definition shortRow :: "entry \<Rightarrow> string" where
  "shortRow e = phone e @ '','' @ name e @ '','' @ timestamp e @ '','' @ status e"

definition shortLine :: "entry \<Rightarrow> string" where
  "shortLine e = shortRow e @ [CHR 0x0A]"

text \<open>
  What the file system does during one write attempt: each flag says that the
  call fails (the promise rejects) and leaves the file as it was.
\<close>

record io =
  writeHeaderFails :: bool
  readFails :: bool
  appendNewlineFails :: bool
  appendLineFails :: bool

text \<open>
  The \<^verbatim>\<open>try\<close> block of \<^verbatim>\<open>processLogQueue\<close> on a log file (\<open>None\<close>: the file does
  not exist). A missing file is created with the header. An existing file is read,
  and when it is not empty and does not end in a line feed, one is appended; a
  failure of the read or of that append is caught on the spot and the block goes
  on. Then the line is appended. The result says whether the block completed
  (\<open>False\<close>: it threw), with the file it leaves.
\<close>

definition writeEntry :: "string \<Rightarrow> string \<Rightarrow> io \<Rightarrow> string option \<Rightarrow> bool \<times> string option" where
  "writeEntry header line x f =
     (case f of
        None \<Rightarrow>
          if writeHeaderFails x then (False, None)
          else if appendLineFails x then (False, Some header)
          else (True, Some (header @ line))
      | Some existingContent \<Rightarrow>
          (let repaired =
                 (if readFails x then existingContent
                  else if length existingContent > 0 \<and> \<not> endsWith existingContent [CHR 0x0A]
                  then (if appendNewlineFails x then existingContent
                        else existingContent @ [CHR 0x0A])
                  else existingContent)
           in if appendLineFails x then (False, Some repaired)
              else (True, Some (repaired @ line))))"

text \<open>
  One log with its queue: \<^verbatim>\<open>logQueue.main\<close>, \<^verbatim>\<open>logQueue.isProcessing\<close>,
  \<^verbatim>\<open>fileLocks.mainLog\<close> and the file (or the catalog's four counterparts).
\<close>

record channel =
  pending :: "entry list"
  isProcessing :: bool
  fileLock :: bool
  logFile :: "string option"

text \<open>
  One pass of \<^verbatim>\<open>processLogQueue\<close> over one log. Nothing happens when a pass is
  under way or the queue is empty. The polling loop on the file lock never ends
  while the lock stays set, which no step of this pass clears: \<open>None\<close>. Otherwise
  the first entry is shifted off the queue and written; when the write throws, the
  entry is unshifted; the lock and the flag are released either way.
\<close>

definition processEntry :: "string \<Rightarrow> (entry \<Rightarrow> string) \<Rightarrow> io \<Rightarrow> channel \<Rightarrow> channel option" where
  "processEntry header line x ch =
     (if isProcessing ch \<or> pending ch = [] then Some ch
      else if fileLock ch then None
      else
        (case pending ch of
           [] \<Rightarrow> Some ch
         | e # rest \<Rightarrow>
             (case writeEntry header (line e) x (logFile ch) of
                (completed, f') \<Rightarrow>
                  Some (ch\<lparr>pending := (if completed then rest else e # rest),
                           logFile := f', fileLock := False, isProcessing := False\<rparr>))))"

text \<open>
  \<^verbatim>\<open>processLogQueue\<close> calls itself from its \<^verbatim>\<open>finally\<close> block, so one call makes
  attempt after attempt until the queue is empty. The list gives what the file
  system does at each attempt; the result is the state after that many attempts.
\<close>

fun processLogQueue :: "string \<Rightarrow> (entry \<Rightarrow> string) \<Rightarrow> io list \<Rightarrow> channel \<Rightarrow> channel option" where
  "processLogQueue header line [] ch = Some ch"
| "processLogQueue header line (x # xs) ch =
     (case processEntry header line x ch of
        None \<Rightarrow> None
      | Some ch' \<Rightarrow> processLogQueue header line xs ch')"

text \<open>\<^verbatim>\<open>safeLogMessage\<close>: the entry joins the end of the queue, and
  \<^verbatim>\<open>processLogQueue\<close> is called.\<close>

definition safeLogMessage ::
  "string \<Rightarrow> (entry \<Rightarrow> string) \<Rightarrow> (string \<Rightarrow> string) \<Rightarrow> jsDate \<Rightarrow> io list \<Rightarrow>
   string \<Rightarrow> string \<Rightarrow> string \<Rightarrow> channel \<Rightarrow> channel option" where
  "safeLogMessage header line norm now xs ph nm st ch =
     processLogQueue header line xs (ch\<lparr>pending := pending ch @ [mkEntry norm now ph nm st]\<rparr>)"

subsection \<open>Log Store: the transition from Sent to Seen (earlier revision)\<close>

text \<open>
  \<^verbatim>\<open>Math.round((now - new Date(timestamp)) / 1000)\<close> on two time values: the
  difference as a double, its quotient by 1000 as a double, and the integer nearest
  to that (the larger of two).
\<close>

definition doubleOfInt :: "int \<Rightarrow> jsnum" where
  "doubleOfInt i = nearestDouble (i < 0) (abs i) 1"

definition divideBy :: "jsnum \<Rightarrow> int \<Rightarrow> jsnum" where
  "divideBy x k =
     (case x of
        Finite neg m e \<Rightarrow>
          (if e \<ge> 0 then nearestDouble neg (m * 2 ^ nat e) k
           else nearestDouble neg m (k * 2 ^ nat (- e)))
      | _ \<Rightarrow> x)"

definition mathRound :: "jsnum \<Rightarrow> int option" where
  "mathRound x =
     (case x of
        Finite neg m e \<Rightarrow>
          (let sm = (if neg then - m else m)
           in if e \<ge> 0 then Some (sm * 2 ^ nat e)
              else Some ((2 * sm + 2 ^ nat (- e)) div 2 ^ (nat (- e) + 1)))
      | _ \<Rightarrow> None)"

definition elapsedSeconds :: "int \<Rightarrow> int \<Rightarrow> int option" where
  "elapsedSeconds nowMs thenMs = mathRound (divideBy (doubleOfInt (nowMs - thenMs)) 1000)"

text \<open>
  What surrounds one call of \<^verbatim>\<open>updateLogWithSeenStatus\<close>: the clock, the time value
  \<^verbatim>\<open>new Date(s)\<close> has for a timestamp string \<open>s\<close> (\<open>None\<close>: an invalid date; the
  log's format is outside the standard's date grammar, so the engine decides),
  whether reading and rewriting the file fail, and what \<^verbatim>\<open>isPhoneInLeads\<close> answers.
\<close>

record seenEnv =
  now :: jsDate
  dateParse :: "string \<Rightarrow> int option"
  readFileFails :: bool
  writeFileFails :: bool
  phoneInLeads :: bool

text \<open>\<^verbatim>\<open>timeToSeeValue\<close> as the row template prints it: \<^verbatim>\<open>NaN\<close> for an invalid
  date.\<close>

definition timeToSeeValue :: "seenEnv \<Rightarrow> string \<Rightarrow> string" where
  "timeToSeeValue env ts =
     (case dateParse env ts of
        None \<Rightarrow> ''NaN''
      | Some thenMs \<Rightarrow>
          (case elapsedSeconds (timeValue (now env)) thenMs of
             None \<Rightarrow> ''NaN''
           | Some secs \<Rightarrow> showInt secs))"

text \<open>\<^verbatim>\<open>columns[i]\<close> after \<^verbatim>\<open>while (columns.length < 6) columns.push('')\<close>.\<close>

definition column :: "string list \<Rightarrow> nat \<Rightarrow> string" where
  "column columns i = (if i < length columns then columns ! i else [])"

text \<open>The row written in place of a Sent row: the first three columns, the new
  status, the two seen columns, and the update time when the old row had seven
  columns or more.\<close>

definition updatedRow :: "seenEnv \<Rightarrow> string \<Rightarrow> string" where
  "updatedRow env row =
     (let columns = split (CHR '','') row;
          logPhone = column columns 0;
          nm = column columns 1;
          ts = column columns 2;
          seenTimestampValue = formatTimestamp (now env);
          hasLastUpdatedColumn = (length columns \<ge> 7);
          base = logPhone @ '','' @ nm @ '','' @ ts @ '',Seen,'' @ seenTimestampValue @ '','' @
                 timeToSeeValue env ts
      in if hasLastUpdatedColumn then base @ '','' @ seenTimestampValue else base)"

text \<open>The rows the loop skips: \<^verbatim>\<open>!rows[i] || rows[i].trim() === ''\<close>.\<close>

definition blankRow :: "string \<Rightarrow> bool" where
  "blankRow row = (row = [] \<or> trim row = [])"

text \<open>The rows the loop visits: those after the header that it does not skip.\<close>

definition dataRows :: "string \<Rightarrow> string list" where
  "dataRows logData = filter (\<lambda>row. \<not> blankRow row) (tl (split (CHR 0x0A) logData))"

text \<open>The two tests of the loop on a row: its first column normalizes to the phone,
  and its fourth column is the status.\<close>

definition rowHas :: "string \<Rightarrow> string \<Rightarrow> string \<Rightarrow> bool" where
  "rowHas normalizedPhone st row =
     (normalizePhone_v1 (column (split (CHR '','') row) 0) = normalizedPhone \<and>
      column (split (CHR '','') row) 3 = st)"

text \<open>The variables of the row loop.\<close>

record scan =
  newRows :: "string list"
  customerName :: "string option"
  updated :: bool
  alreadySeen :: bool

text \<open>
  The body of the loop over \<^verbatim>\<open>rows[1..]\<close>. An empty or blank row is skipped and
  not copied. A row of another phone is copied. A row of this phone with status Seen
  sets \<^verbatim>\<open>alreadySeen\<close>; a row of this phone with status Sent is rewritten when
  nothing was rewritten before and \<^verbatim>\<open>alreadySeen\<close> is not set; every other row of
  this phone is copied.
\<close>

definition scanRow :: "seenEnv \<Rightarrow> string \<Rightarrow> scan \<Rightarrow> string \<Rightarrow> scan" where
  "scanRow env normalizedPhone sc row =
     (if blankRow row then sc
      else
        let columns = split (CHR '','') row;
            rowPhone = normalizePhone_v1 (column columns 0);
            st = column columns 3
        in if rowPhone = normalizedPhone then
             (let seen = (alreadySeen sc \<or> st = ''Seen'')
              in if st = ''Sent'' \<and> \<not> updated sc \<and> \<not> seen then
                   sc\<lparr>newRows := newRows sc @ [updatedRow env row],
                      customerName := Some (column columns 1),
                      updated := True, alreadySeen := seen\<rparr>
                 else sc\<lparr>newRows := newRows sc @ [row], alreadySeen := seen\<rparr>)
           else sc\<lparr>newRows := newRows sc @ [row]\<rparr>)"

text \<open>The loop, row after row.\<close>

definition scanRows :: "seenEnv \<Rightarrow> string \<Rightarrow> string list \<Rightarrow> scan \<Rightarrow> scan" where
  "scanRows env normalizedPhone rows sc = foldl (scanRow env normalizedPhone) sc rows"

text \<open>
  The loop on the content of the log file, from its initial values: the header is
  the first of the new rows, and \<^verbatim>\<open>alreadySeen\<close> starts as the membership of the
  phone in \<^verbatim>\<open>seenNotifications\<close>.
\<close>

definition scanLog :: "seenEnv \<Rightarrow> string \<Rightarrow> string \<Rightarrow> bool \<Rightarrow> scan" where
  "scanLog env normalizedPhone logData notifiedBefore =
     (let rows = split (CHR 0x0A) logData;
          header = hd rows
      in scanRows env normalizedPhone (tl rows)
           \<lparr>newRows = [header], customerName = None, updated = False,
            alreadySeen = notifiedBefore\<rparr>)"

text \<open>
  The state \<^verbatim>\<open>updateLogWithSeenStatus\<close> works on: the main log file, its lock, and
  the two sets of phones.
\<close>

record seenState =
  mainLogFile :: "string option"
  mainLogLock :: bool
  seenNotifications :: "string set"
  processingSeenStatus :: "string set"

text \<open>
  What one call leaves: the state, the value it returns (the function has no
  \<^verbatim>\<open>return\<close> with a value, so the caller always receives \<^verbatim>\<open>undefined\<close>: \<open>None\<close>),
  the number of times it wrote the log file, and the customer name and phone it
  handed to \<^verbatim>\<open>sendNotification\<close>, if it did.
\<close>

record seenResult =
  after :: seenState
  returned :: "string option"
  fileWrites :: nat
  notified :: "(string \<times> string) option"

text \<open>The body of the \<^verbatim>\<open>try\<close> block, from the state with the lock taken.\<close>

definition seenTry :: "seenEnv \<Rightarrow> string \<Rightarrow> string \<Rightarrow> seenState \<Rightarrow> seenResult" where
  "seenTry env ph normalizedPhone s =
     (case mainLogFile s of
        None \<Rightarrow> \<lparr>after = s, returned = None, fileWrites = 0, notified = None\<rparr>
      | Some logData \<Rightarrow>
          if readFileFails env then \<lparr>after = s, returned = None, fileWrites = 0, notified = None\<rparr>
          else
            let sc = scanLog env normalizedPhone logData (normalizedPhone \<in> seenNotifications s)
            in if updated sc then
                 (let s1 = s\<lparr>seenNotifications := insert normalizedPhone (seenNotifications s)\<rparr>
                  in if writeFileFails env then
                       \<lparr>after = s1, returned = None, fileWrites = 0, notified = None\<rparr>
                     else
                       \<lparr>after = s1\<lparr>mainLogFile := Some (join [CHR 0x0A] (newRows sc) @ [CHR 0x0A])\<rparr>,
                        returned = None, fileWrites = 1,
                        notified =
                          (case customerName sc of
                             None \<Rightarrow> None
                           | Some nm \<Rightarrow>
                               if nm \<noteq> [] \<and> \<not> alreadySeen sc \<and> phoneInLeads env
                               then Some (nm, ph) else None)\<rparr>)
               else \<lparr>after = s, returned = None, fileWrites = 0, notified = None\<rparr>)"

text \<open>
  \<^verbatim>\<open>updateLogWithSeenStatus(phone)\<close>. A call for a phone that is being processed
  returns at once. The polling loop on the file lock never ends while the lock
  stays set, which nothing in this call clears: \<open>None\<close>. Otherwise the lock is taken,
  the phone is marked as being processed, the \<^verbatim>\<open>try\<close> block runs, and the
  \<^verbatim>\<open>finally\<close> block releases both.
\<close>

definition updateLogWithSeenStatus :: "seenEnv \<Rightarrow> string \<Rightarrow> seenState \<Rightarrow> seenResult option" where
  "updateLogWithSeenStatus env ph s =
     (let normalizedPhone = normalizePhone_v1 ph
      in if normalizedPhone \<in> processingSeenStatus s then
           Some \<lparr>after = s, returned = None, fileWrites = 0, notified = None\<rparr>
         else if mainLogLock s then None
         else
           (let s0 = s\<lparr>mainLogLock := True,
                       processingSeenStatus := insert normalizedPhone (processingSeenStatus s)\<rparr>;
                r = seenTry env ph normalizedPhone s0
            in Some (r\<lparr>after := (after r)
                       \<lparr>mainLogLock := False,
                        processingSeenStatus := processingSeenStatus (after r) - {normalizedPhone}\<rparr>\<rparr>)))"

subsection \<open>Lead Processing Cycle: dispatching one lead\<close>

record lead =
  leadName :: string
  leadPhone :: string
  leadSendCatalog :: bool

text \<open>
  The logs are read back with the CSV reader \<^verbatim>\<open>csv()\<close> of the library
  \<^verbatim>\<open>csv-parser\<close>, which is not part of the repository: the reader is a parameter,
  from the content of a file to the rows it yields. A row is the object the reader
  builds, here the list of its property names and values; \<^verbatim>\<open>row.Phone\<close> and
  \<^verbatim>\<open>row.Status\<close> look a name up.
\<close>

type_synonym csvRow = "(string \<times> string) list"

text \<open>
  \<^verbatim>\<open>getSentPhones(statusFilter)\<close> on the main log file (\<open>None\<close>: the file does not
  exist, and the set is empty). A row counts when its \<^verbatim>\<open>Phone\<close> is there and not
  empty, and the filter is missing or empty or equal to its \<^verbatim>\<open>Status\<close>.
\<close>

definition getSentPhones ::
  "(string \<Rightarrow> string) \<Rightarrow> string option \<Rightarrow> (string \<Rightarrow> csvRow list) \<Rightarrow> string option \<Rightarrow> string set" where
  "getSentPhones norm statusFilter reader file =
     (case file of
        None \<Rightarrow> {}
      | Some content \<Rightarrow>
          set (concat (map (\<lambda>row.
                 case map_of row ''Phone'' of
                   None \<Rightarrow> []
                 | Some p \<Rightarrow>
                     if p \<noteq> [] \<and>
                        (case statusFilter of
                           None \<Rightarrow> True
                         | Some f \<Rightarrow> f = [] \<or> map_of row ''Status'' = Some f)
                     then [norm p] else [])
               (reader content))))"

text \<open>\<^verbatim>\<open>getCatalogSentPhones()\<close> on the catalog log file: the rows with a phone and
  status Sent.\<close>

definition getCatalogSentPhones ::
  "(string \<Rightarrow> string) \<Rightarrow> (string \<Rightarrow> csvRow list) \<Rightarrow> string option \<Rightarrow> string set" where
  "getCatalogSentPhones norm reader file =
     (case file of
        None \<Rightarrow> {}
      | Some content \<Rightarrow>
          set (concat (map (\<lambda>row.
                 case map_of row ''Phone'' of
                   None \<Rightarrow> []
                 | Some p \<Rightarrow>
                     if p \<noteq> [] \<and> map_of row ''Status'' = Some ''Sent'' then [norm p] else [])
               (reader content))))"

text \<open>
  A thrown value as the \<^verbatim>\<open>catch\<close> blocks read it: an error whose \<^verbatim>\<open>message\<close> is
  a string; another value, whose \<^verbatim>\<open>message\<close> is \<^verbatim>\<open>undefined\<close>; or \<^verbatim>\<open>null\<close> or
  \<^verbatim>\<open>undefined\<close>, on which reading \<^verbatim>\<open>message\<close> throws.
\<close>

datatype thrown = Error string | Other | Nullish

datatype 'a outcome = Returns 'a | Throws thrown

definition notReady :: thrown where
  "notReady = Error ''WhatsApp client not ready''"

definition typeError :: thrown where
  "typeError = Error ''Cannot read properties of undefined''"

text \<open>The status the \<^verbatim>\<open>catch\<close> block of \<^verbatim>\<open>processLeads\<close> computes from
  \<^verbatim>\<open>error.message\<close>.\<close>

definition failureStatus :: "string \<Rightarrow> string" where
  "failureStatus message =
     (let errorMsg = toLowerCase message
      in if includesStr errorMsg ''not registered'' \<or>
            includesStr errorMsg ''invalid number'' \<or>
            includesStr errorMsg ''incorrect number''
         then ''Invalid'' else ''Failed'')"

text \<open>
  The process-wide state the cycle works on: the two lock sets, the entries logged
  to the main log and to the catalog log so far, the chat ids handed to
  \<^verbatim>\<open>client.sendMessage\<close> so far, the number of calls of \<^verbatim>\<open>fetchLeads\<close>, the number
  of times the cycle logged that it is already running, and the flag
  \<^verbatim>\<open>processLeads.isRunning\<close> of the later revision.
\<close>

record world =
  processingLocks :: "string set"
  messageSendingLocks :: "string set"
  mainLog :: "entry list"
  catalogLog :: "entry list"
  sends :: "string list"
  fetches :: nat
  skips :: nat
  isRunning :: bool

text \<open>
  What surrounds the dispatch of one lead: the flag \<^verbatim>\<open>processing\<close> at the head of
  the loop body and after the delay, whether the client is there and ready, what
  each \<^verbatim>\<open>client.sendMessage\<close> and each logging call does (\<open>None\<close>: it resolves;
  \<open>Some e\<close>: it throws \<open>e\<close>), whether reading the logs inside
  \<^verbatim>\<open>sendWelcomeWithCatalog\<close> rejects, the clock, and the CSV reader.
\<close>

record leadEnv =
  processingAtStart :: bool
  processingAtEnd :: bool
  clientReady :: bool
  sendWelcome :: "thrown option"
  sendCatalog :: "thrown option"
  sendLocation :: "thrown option"
  logWelcome :: "thrown option"
  logCatalog :: "thrown option"
  logFailure :: "thrown option"
  readLogs :: "thrown option"
  clock :: jsDate
  csv :: "string \<Rightarrow> csvRow list"

text \<open>
  The log files that hold the entries logged so far: what \<^verbatim>\<open>processLogQueue\<close>
  writes, entry after entry, when no file-system call fails. The main log starts
  as no file; the catalog log starts with its header, which
  \<^verbatim>\<open>initializeCatalogLog\<close> writes when the client is set up.
\<close>

definition noFailure :: io where
  "noFailure = \<lparr>writeHeaderFails = False, readFails = False, appendNewlineFails = False,
                appendLineFails = False\<rparr>"

fun written :: "string \<Rightarrow> (entry \<Rightarrow> string) \<Rightarrow> string option \<Rightarrow> entry list \<Rightarrow> string option" where
  "written header line f [] = f"
| "written header line f (e # es) =
     written header line (snd (writeEntry header (line e) noFailure f)) es"

definition mainFile_v1 :: "entry list \<Rightarrow> string option" where
  "mainFile_v1 es = written mainHeader_v1 mainLine_v1 None es"

definition mainFile_v2 :: "entry list \<Rightarrow> string option" where
  "mainFile_v2 es = written shortHeader shortLine None es"

definition catalogFile :: "entry list \<Rightarrow> string option" where
  "catalogFile es = written shortHeader shortLine (Some shortHeader) es"

text \<open>\<^verbatim>\<open>logSentMessage\<close> and \<^verbatim>\<open>logCatalogSent\<close>: the entry of \<^verbatim>\<open>safeLogMessage\<close>
  joins the entries logged.\<close>

definition logSentMessage :: "(string \<Rightarrow> string) \<Rightarrow> jsDate \<Rightarrow> string \<Rightarrow> string \<Rightarrow> string \<Rightarrow> world \<Rightarrow> world" where
  "logSentMessage norm d ph nm st w = w\<lparr>mainLog := mainLog w @ [mkEntry norm d ph nm st]\<rparr>"

definition logCatalogSent :: "(string \<Rightarrow> string) \<Rightarrow> jsDate \<Rightarrow> string \<Rightarrow> string \<Rightarrow> world \<Rightarrow> world" where
  "logCatalogSent norm d ph nm w = w\<lparr>catalogLog := catalogLog w @ [mkEntry norm d ph nm ''Sent'']\<rparr>"

text \<open>One call of \<^verbatim>\<open>client.sendMessage\<close> to the chat of a phone.\<close>

definition sendMessage :: "string \<Rightarrow> thrown option \<Rightarrow> world \<Rightarrow> unit outcome \<times> world" where
  "sendMessage ph result w =
     (case result of
        None \<Rightarrow> (Returns (), w\<lparr>sends := sends w @ [ph @ ''@c.us'']\<rparr>)
      | Some e \<Rightarrow> (Throws e, w\<lparr>sends := sends w @ [ph @ ''@c.us'']\<rparr>))"

text \<open>\<^verbatim>\<open>sendWelcomeMessage\<close> of the earlier revision.\<close>

definition sendWelcomeMessage_v1 :: "leadEnv \<Rightarrow> lead \<Rightarrow> world \<Rightarrow> unit outcome \<times> world" where
  "sendWelcomeMessage_v1 env l w =
     (if \<not> clientReady env then (Throws notReady, w)
      else sendMessage (leadPhone l) (sendWelcome env) w)"

text \<open>
  The \<^verbatim>\<open>try\<close> block of the first pass, earlier revision: send, log Sent, add the
  phone to the local sent set.
\<close>

definition tryWelcome_v1 :: "leadEnv \<Rightarrow> lead \<Rightarrow> world \<Rightarrow> string set \<Rightarrow> unit outcome \<times> world \<times> string set" where
  "tryWelcome_v1 env l w sentPhones =
     (case sendWelcomeMessage_v1 env l w of
        (Throws e, w1) \<Rightarrow> (Throws e, w1, sentPhones)
      | (Returns _, w1) \<Rightarrow>
          (case logWelcome env of
             Some e \<Rightarrow> (Throws e, w1, sentPhones)
           | None \<Rightarrow>
               (Returns (),
                logSentMessage normalizePhone_v1 (clock env) (leadPhone l) (leadName l) ''Sent'' w1,
                insert (normalizePhone_v1 (leadPhone l)) sentPhones)))"

text \<open>
  \<^verbatim>\<open>sendWelcomeWithCatalog\<close> of the later revision. A failed welcome is caught and
  only reported; a failed catalog is reported and thrown on; reporting prints
  \<^verbatim>\<open>message\<close> of the caught value, which throws on \<^verbatim>\<open>null\<close> and \<^verbatim>\<open>undefined\<close>.
  The sending lock is released in the \<^verbatim>\<open>finally\<close> block.
\<close>

definition welcomePart_v2 :: "leadEnv \<Rightarrow> string \<Rightarrow> string \<Rightarrow> world \<Rightarrow> unit outcome \<times> world" where
  "welcomePart_v2 env normalizedPhone nm w =
     (let caught = (\<lambda>e w1. case e of Nullish \<Rightarrow> (Throws typeError, w1) | _ \<Rightarrow> (Returns (), w1))
      in case sendMessage normalizedPhone (sendWelcome env) w of
           (Throws e, w1) \<Rightarrow> caught e w1
         | (Returns _, w1) \<Rightarrow>
             (case logWelcome env of
                Some e \<Rightarrow> caught e w1
              | None \<Rightarrow>
                  (Returns (),
                   logSentMessage normalizePhone_v2 (clock env) normalizedPhone nm ''Sent'' w1)))"

definition catalogPart_v2 :: "leadEnv \<Rightarrow> string \<Rightarrow> string \<Rightarrow> world \<Rightarrow> unit outcome \<times> world" where
  "catalogPart_v2 env normalizedPhone nm w =
     (let caught = (\<lambda>e w1. case e of Nullish \<Rightarrow> (Throws typeError, w1) | _ \<Rightarrow> (Throws e, w1))
      in case sendMessage normalizedPhone (sendCatalog env) w of
           (Throws e, w1) \<Rightarrow> caught e w1
         | (Returns _, w1) \<Rightarrow>
             (case logCatalog env of
                Some e \<Rightarrow> caught e w1
              | None \<Rightarrow>
                  (Returns (), logCatalogSent normalizePhone_v2 (clock env) normalizedPhone nm w1)))"

definition sendWelcomeWithCatalog_v2 :: "leadEnv \<Rightarrow> lead \<Rightarrow> world \<Rightarrow> unit outcome \<times> world" where
  "sendWelcomeWithCatalog_v2 env l w =
     (if \<not> clientReady env then (Throws notReady, w)
      else
        let normalizedPhone = normalizePhone_v2 (leadPhone l)
        in if normalizedPhone \<in> messageSendingLocks w then (Returns (), w)
           else
             let w0 = w\<lparr>messageSendingLocks := insert normalizedPhone (messageSendingLocks w)\<rparr>;
                 r = (case readLogs env of
                        Some e \<Rightarrow> (Throws e, w0)
                      | None \<Rightarrow>
                          let welcomeAlreadySent =
                                (normalizedPhone \<in>
                                   getSentPhones normalizePhone_v2 None (csv env)
                                     (mainFile_v2 (mainLog w0)));
                              catalogAlreadySent =
                                (normalizedPhone \<in>
                                   getCatalogSentPhones normalizePhone_v2 (csv env)
                                     (catalogFile (catalogLog w0)))
                          in case (if \<not> welcomeAlreadySent
                                   then welcomePart_v2 env normalizedPhone (leadName l) w0
                                   else (Returns (), w0)) of
                               (Throws e, w1) \<Rightarrow> (Throws e, w1)
                             | (Returns _, w1) \<Rightarrow>
                                 if \<not> catalogAlreadySent
                                 then catalogPart_v2 env normalizedPhone (leadName l) w1
                                 else (Returns (), w1))
             in (fst r,
                 (snd r)\<lparr>messageSendingLocks := messageSendingLocks (snd r) - {normalizedPhone}\<rparr>))"

text \<open>The \<^verbatim>\<open>try\<close> block of the loop, later revision.\<close>

definition tryWelcome_v2 :: "leadEnv \<Rightarrow> lead \<Rightarrow> world \<Rightarrow> string set \<Rightarrow> unit outcome \<times> world \<times> string set" where
  "tryWelcome_v2 env l w sentPhones =
     (case sendWelcomeWithCatalog_v2 env l w of
        (Throws e, w1) \<Rightarrow> (Throws e, w1, sentPhones)
      | (Returns _, w1) \<Rightarrow>
          (Returns (), w1, insert (normalizePhone_v2 (leadPhone l)) sentPhones))"

text \<open>
  The \<^verbatim>\<open>catch\<close> block of the loop, the same in both revisions:
  \<^verbatim>\<open>error.message.toLowerCase()\<close> throws on a value without a string message;
  otherwise the failure is logged with its status and the phone joins the local
  sent set.
\<close>

definition catchFailure ::
  "(string \<Rightarrow> string) \<Rightarrow> leadEnv \<Rightarrow> lead \<Rightarrow> thrown \<Rightarrow> world \<Rightarrow> string set \<Rightarrow>
   unit outcome \<times> world \<times> string set" where
  "catchFailure norm env l e w sentPhones =
     (case e of
        Error message \<Rightarrow>
          (case logFailure env of
             Some e' \<Rightarrow> (Throws e', w, sentPhones)
           | None \<Rightarrow>
               (Returns (),
                logSentMessage norm (clock env) (leadPhone l) (leadName l) (failureStatus message) w,
                insert (norm (leadPhone l)) sentPhones))
      | _ \<Rightarrow> (Throws typeError, w, sentPhones))"

text \<open>How the loop goes on after the body: to the next lead, out of the loop, or
  out of the function with a thrown value.\<close>

datatype control = Continue | Break | Escape thrown

text \<open>
  The body of the first loop of \<^verbatim>\<open>processLeads\<close>, earlier revision. The lock is
  deleted by the statement after the \<^verbatim>\<open>try\<close>/\<^verbatim>\<open>catch\<close>, which a throwing \<^verbatim>\<open>catch\<close>
  block does not reach.
\<close>

definition leadStep_v1 :: "leadEnv \<Rightarrow> lead \<Rightarrow> world \<Rightarrow> string set \<Rightarrow> control \<times> world \<times> string set" where
  "leadStep_v1 env l w sentPhones =
     (if \<not> processingAtStart env then (Break, w, sentPhones)
      else
        let normalizedPhone = normalizePhone_v1 (leadPhone l)
        in if normalizedPhone \<in> processingLocks w then (Continue, w, sentPhones)
           else if normalizedPhone \<in> sentPhones then (Continue, w, sentPhones)
           else
             let w0 = w\<lparr>processingLocks := insert normalizedPhone (processingLocks w)\<rparr>;
                 r = (case tryWelcome_v1 env l w0 sentPhones of
                        (Throws e, w1, sp1) \<Rightarrow> catchFailure normalizePhone_v1 env l e w1 sp1
                      | (Returns u, w1, sp1) \<Rightarrow> (Returns u, w1, sp1))
             in (case r of
                   (Throws e, w2, sp2) \<Rightarrow> (Escape e, w2, sp2)
                 | (Returns _, w2, sp2) \<Rightarrow>
                     (if processingAtEnd env then Continue else Break,
                      w2\<lparr>processingLocks := processingLocks w2 - {normalizedPhone}\<rparr>, sp2)))"

text \<open>
  The body of the loop of \<^verbatim>\<open>processLeads\<close>, later revision. The lock is deleted in
  the \<^verbatim>\<open>finally\<close> block.
\<close>

definition leadStep_v2 :: "leadEnv \<Rightarrow> lead \<Rightarrow> world \<Rightarrow> string set \<Rightarrow> control \<times> world \<times> string set" where
  "leadStep_v2 env l w sentPhones =
     (if \<not> processingAtStart env then (Break, w, sentPhones)
      else
        let normalizedPhone = normalizePhone_v2 (leadPhone l)
        in if normalizedPhone \<in> processingLocks w then (Continue, w, sentPhones)
           else if normalizedPhone \<in> sentPhones then (Continue, w, sentPhones)
           else
             let w0 = w\<lparr>processingLocks := insert normalizedPhone (processingLocks w)\<rparr>;
                 r = (case tryWelcome_v2 env l w0 sentPhones of
                        (Throws e, w1, sp1) \<Rightarrow> catchFailure normalizePhone_v2 env l e w1 sp1
                      | (Returns u, w1, sp1) \<Rightarrow> (Returns u, w1, sp1))
             in (case r of
                   (Throws e, w2, sp2) \<Rightarrow>
                     (Escape e, w2\<lparr>processingLocks := processingLocks w2 - {normalizedPhone}\<rparr>, sp2)
                 | (Returns _, w2, sp2) \<Rightarrow>
                     (if processingAtEnd env then Continue else Break,
                      w2\<lparr>processingLocks := processingLocks w2 - {normalizedPhone}\<rparr>, sp2)))"

text \<open>
  The second loop of the earlier revision: the catalog for a lead that has its
  welcome, asked for the catalog and has not had it. \<^verbatim>\<open>sendCatalogAndLocation\<close>
  sends the catalog and then the location; the \<^verbatim>\<open>catch\<close> block prints
  \<^verbatim>\<open>error.message\<close>, which throws on \<^verbatim>\<open>null\<close> and \<^verbatim>\<open>undefined\<close> only.
\<close>

definition sendCatalogAndLocation_v1 :: "leadEnv \<Rightarrow> lead \<Rightarrow> world \<Rightarrow> unit outcome \<times> world" where
  "sendCatalogAndLocation_v1 env l w =
     (if \<not> clientReady env then (Throws notReady, w)
      else
        (case sendMessage (leadPhone l) (sendCatalog env) w of
           (Throws e, w1) \<Rightarrow> (Throws e, w1)
         | (Returns _, w1) \<Rightarrow> sendMessage (leadPhone l) (sendLocation env) w1))"

definition catalogStep_v1 ::
  "leadEnv \<Rightarrow> lead \<Rightarrow> world \<Rightarrow> string set \<Rightarrow> string set \<Rightarrow> control \<times> world \<times> string set" where
  "catalogStep_v1 env l w sentPhones catalogSentPhones =
     (if \<not> processingAtStart env then (Break, w, catalogSentPhones)
      else
        let normalizedPhone = normalizePhone_v1 (leadPhone l)
        in if normalizedPhone \<in> processingLocks w then (Continue, w, catalogSentPhones)
           else if normalizedPhone \<notin> sentPhones then (Continue, w, catalogSentPhones)
           else if \<not> leadSendCatalog l then (Continue, w, catalogSentPhones)
           else if normalizedPhone \<in> catalogSentPhones then (Continue, w, catalogSentPhones)
           else
             let w0 = w\<lparr>processingLocks := insert normalizedPhone (processingLocks w)\<rparr>;
                 r = (case sendCatalogAndLocation_v1 env l w0 of
                        (Throws e, w1) \<Rightarrow> (Throws e, w1, catalogSentPhones)
                      | (Returns _, w1) \<Rightarrow>
                          (case logCatalog env of
                             Some e \<Rightarrow> (Throws e, w1, catalogSentPhones)
                           | None \<Rightarrow>
                               (Returns (),
                                logCatalogSent normalizePhone_v1 (clock env) (leadPhone l) (leadName l) w1,
                                insert normalizedPhone catalogSentPhones)))
             in (case r of
                   (Throws Nullish, w2, csp2) \<Rightarrow> (Escape typeError, w2, csp2)
                 | (_, w2, csp2) \<Rightarrow>
                     (if processingAtEnd env then Continue else Break,
                      w2\<lparr>processingLocks := processingLocks w2 - {normalizedPhone}\<rparr>, csp2)))"

subsection \<open>Lead Processing Cycle: invocations in flight\<close>

text \<open>
  \<^verbatim>\<open>processLeads\<close> is an asynchronous function: an invocation runs until it waits,
  and other code runs before it resumes. An invocation in flight is the point where
  it waits, with its local variables: for the leads, for the sent set, for the
  catalog set, or between two leads of a loop (the dispatch of one lead is taken in
  one piece). What an invocation gets when it resumes: the fetched leads, whether
  the log reading rejects, and the surroundings of one dispatch.
\<close>

record resumeEnv =
  fetchResult :: "lead list"
  logRead :: "thrown option"
  leadRun :: leadEnv

datatype task_v1 =
    AwaitFetch_v1
  | AwaitSentPhones_v1 "lead list"
  | AwaitCatalogPhones_v1 "lead list" "string set"
  | FirstPass_v1 "lead list" "lead list" "string set" "string set"
  | SecondPass_v1 "lead list" "string set" "string set"
  | Done_v1

datatype task_v2 =
    AwaitFetch_v2
  | AwaitSentPhones_v2 "lead list"
  | AwaitCatalogPhones_v2 "lead list" "string set"
  | Dispatching_v2 "lead list" "string set"
  | Done_v2

text \<open>
  The earlier revision. Calling \<^verbatim>\<open>processLeads\<close> goes straight to
  \<^verbatim>\<open>fetchLeads()\<close>. An exception out of the first loop ends the function; leaving the
  first loop by \<^verbatim>\<open>break\<close> leads to the second loop.
\<close>

fun resume_v1 :: "resumeEnv \<Rightarrow> task_v1 \<Rightarrow> world \<Rightarrow> task_v1 \<times> world" where
  "resume_v1 r AwaitFetch_v1 w = (AwaitSentPhones_v1 (fetchResult r), w\<lparr>fetches := fetches w + 1\<rparr>)"
| "resume_v1 r (AwaitSentPhones_v1 leads) w =
     (case logRead r of
        Some e \<Rightarrow> (Done_v1, w)
      | None \<Rightarrow> (AwaitCatalogPhones_v1 leads
                   (getSentPhones normalizePhone_v1 None (csv (leadRun r)) (mainFile_v1 (mainLog w))), w))"
| "resume_v1 r (AwaitCatalogPhones_v1 leads sp) w =
     (case logRead r of
        Some e \<Rightarrow> (Done_v1, w)
      | None \<Rightarrow> (FirstPass_v1 leads leads sp
                   (getCatalogSentPhones normalizePhone_v1 (csv (leadRun r)) (catalogFile (catalogLog w))), w))"
| "resume_v1 r (FirstPass_v1 [] allLeads sp csp) w = (SecondPass_v1 allLeads sp csp, w)"
| "resume_v1 r (FirstPass_v1 (l # ls) allLeads sp csp) w =
     (case leadStep_v1 (leadRun r) l w sp of
        (Continue, w', sp') \<Rightarrow> (FirstPass_v1 ls allLeads sp' csp, w')
      | (Break, w', sp') \<Rightarrow> (SecondPass_v1 allLeads sp' csp, w')
      | (Escape e, w', sp') \<Rightarrow> (Done_v1, w'))"
| "resume_v1 r (SecondPass_v1 [] sp csp) w = (Done_v1, w)"
| "resume_v1 r (SecondPass_v1 (l # ls) sp csp) w =
     (case catalogStep_v1 (leadRun r) l w sp csp of
        (Continue, w', csp') \<Rightarrow> (SecondPass_v1 ls sp csp', w')
      | (Break, w', csp') \<Rightarrow> (Done_v1, w')
      | (Escape e, w', csp') \<Rightarrow> (Done_v1, w'))"
| "resume_v1 r Done_v1 w = (Done_v1, w)"

text \<open>
  The later revision. The \<^verbatim>\<open>finally\<close> block clears the running flag on every way
  out of the \<^verbatim>\<open>try\<close> block.
\<close>

definition finish_v2 :: "world \<Rightarrow> world" where
  "finish_v2 w = w\<lparr>isRunning := False\<rparr>"

fun resume_v2 :: "resumeEnv \<Rightarrow> task_v2 \<Rightarrow> world \<Rightarrow> task_v2 \<times> world" where
  "resume_v2 r AwaitFetch_v2 w = (AwaitSentPhones_v2 (fetchResult r), w\<lparr>fetches := fetches w + 1\<rparr>)"
| "resume_v2 r (AwaitSentPhones_v2 leads) w =
     (case logRead r of
        Some e \<Rightarrow> (Done_v2, finish_v2 w)
      | None \<Rightarrow> (AwaitCatalogPhones_v2 leads
                   (getSentPhones normalizePhone_v2 None (csv (leadRun r)) (mainFile_v2 (mainLog w))), w))"
| "resume_v2 r (AwaitCatalogPhones_v2 leads sp) w =
     (case logRead r of
        Some e \<Rightarrow> (Done_v2, finish_v2 w)
      | None \<Rightarrow> (Dispatching_v2 leads sp, w))"
| "resume_v2 r (Dispatching_v2 [] sp) w = (Done_v2, finish_v2 w)"
| "resume_v2 r (Dispatching_v2 (l # ls) sp) w =
     (case leadStep_v2 (leadRun r) l w sp of
        (Continue, w', sp') \<Rightarrow> (Dispatching_v2 ls sp', w')
      | (Break, w', sp') \<Rightarrow> (Done_v2, finish_v2 w')
      | (Escape e, w', sp') \<Rightarrow> (Done_v2, finish_v2 w'))"
| "resume_v2 r Done_v2 w = (Done_v2, w)"

text \<open>
  The process: the state and the invocations made so far, each at its waiting point
  or done. An event is a call of \<^verbatim>\<open>processLeads\<close> (with whether the client is
  ready at that moment) or the resumption of one invocation.
\<close>

record system_v1 =
  world_v1 :: world
  tasks_v1 :: "task_v1 list"

record system_v2 =
  world_v2 :: world
  tasks_v2 :: "task_v2 list"

datatype event = Invoke bool | Resume nat resumeEnv

text \<open>The code of \<^verbatim>\<open>processLeads\<close> up to its first wait, earlier revision.\<close>

definition invoke_v1 :: "system_v1 \<Rightarrow> system_v1" where
  "invoke_v1 sys = sys\<lparr>tasks_v1 := tasks_v1 sys @ [AwaitFetch_v1]\<rparr>"

text \<open>
  The code of \<^verbatim>\<open>processLeads\<close> up to its first wait, later revision: when the flag
  is set, the skip is logged and the function returns; otherwise the flag is set,
  and cleared again at once when the client is not ready.
\<close>

definition invoke_v2 :: "bool \<Rightarrow> system_v2 \<Rightarrow> system_v2" where
  "invoke_v2 ready sys =
     (let w = world_v2 sys
      in if isRunning w then
           sys\<lparr>world_v2 := w\<lparr>skips := skips w + 1\<rparr>, tasks_v2 := tasks_v2 sys @ [Done_v2]\<rparr>
         else if \<not> ready then
           sys\<lparr>world_v2 := w\<lparr>isRunning := False\<rparr>, tasks_v2 := tasks_v2 sys @ [Done_v2]\<rparr>
         else
           sys\<lparr>world_v2 := w\<lparr>isRunning := True\<rparr>, tasks_v2 := tasks_v2 sys @ [AwaitFetch_v2]\<rparr>)"

definition step_v1 :: "system_v1 \<Rightarrow> event \<Rightarrow> system_v1" where
  "step_v1 sys ev =
     (case ev of
        Invoke ready \<Rightarrow> invoke_v1 sys
      | Resume i r \<Rightarrow>
          if i < length (tasks_v1 sys) then
            (case resume_v1 r (tasks_v1 sys ! i) (world_v1 sys) of
               (t, w) \<Rightarrow> sys\<lparr>world_v1 := w, tasks_v1 := (tasks_v1 sys)[i := t]\<rparr>)
          else sys)"

definition step_v2 :: "system_v2 \<Rightarrow> event \<Rightarrow> system_v2" where
  "step_v2 sys ev =
     (case ev of
        Invoke ready \<Rightarrow> invoke_v2 ready sys
      | Resume i r \<Rightarrow>
          if i < length (tasks_v2 sys) then
            (case resume_v2 r (tasks_v2 sys ! i) (world_v2 sys) of
               (t, w) \<Rightarrow> sys\<lparr>world_v2 := w, tasks_v2 := (tasks_v2 sys)[i := t]\<rparr>)
          else sys)"

text \<open>The process after a sequence of events.\<close>

definition run_v1 :: "event list \<Rightarrow> system_v1 \<Rightarrow> system_v1" where
  "run_v1 evs sys = foldl step_v1 sys evs"

definition run_v2 :: "event list \<Rightarrow> system_v2 \<Rightarrow> system_v2" where
  "run_v2 evs sys = foldl step_v2 sys evs"

subsection \<open>Facts about the Phone Normalizer\<close>

lemma isDigit_not_isSpace: "isDigit c \<Longrightarrow> \<not> isSpace c"
  by (auto simp: isDigit_def isSpace_def)

lemma dropWhile_none: "(\<forall>c\<in>set xs. \<not> P c) \<Longrightarrow> dropWhile P xs = xs"
  by (cases xs) auto

lemma trim_no_space: "(\<forall>c\<in>set s. \<not> isSpace c) \<Longrightarrow> trim s = s"
proof -
  assume a: "\<forall>c\<in>set s. \<not> isSpace c"
  have 1: "dropWhile isSpace s = s" using a by (rule dropWhile_none)
  have "\<forall>c\<in>set (rev s). \<not> isSpace c" using a by simp
  then have 2: "dropWhile isSpace (rev s) = rev s" by (rule dropWhile_none)
  show ?thesis by (simp add: trim_def 1 2)
qed

lemma startsWith_subset: "startsWith s sub \<Longrightarrow> set sub \<subseteq> set s"
  unfolding startsWith_def by (metis set_take_subset)

lemma includesStr_subset: "includesStr s sub \<Longrightarrow> set sub \<subseteq> set s"
proof (induction s)
  case Nil
  then show ?case by simp
next
  case (Cons c cs)
  show ?case
  proof (cases "startsWith (c # cs) sub")
    case True
    then show ?thesis by (rule startsWith_subset)
  next
    case False
    with Cons.prems have "includesStr cs sub" by simp
    then have "set sub \<subseteq> set cs" by (rule Cons.IH)
    then show ?thesis by auto
  qed
qed

lemma sciRepair_digits: "(\<forall>c\<in>set s. isDigit c) \<Longrightarrow> sciRepair s = s"
proof -
  assume a: "\<forall>c\<in>set s. isDigit c"
  have "\<not> isDigit CHR ''+''" by (simp add: isDigit_def)
  then have "CHR ''+'' \<notin> set s" using a by blast
  then have "\<not> includesStr s ''E+''" "\<not> includesStr s ''e+''"
    by (auto dest: includesStr_subset)
  then show ?thesis by (simp add: sciRepair_def)
qed

lemma normalizePhone_v1_digits:
  assumes "\<forall>c\<in>set s. isDigit c"
  shows "normalizePhone_v1 s =
     (if length s = 10 then ''91'' @ s
      else if startsWith s ''0'' then (if length (drop 1 s) = 10 then ''91'' @ drop 1 s else drop 1 s)
      else s)"
proof -
  have t: "trim s = s" using assms by (simp add: trim_no_space isDigit_not_isSpace)
  have f: "filter isDigit s = s" using assms by simp
  show ?thesis
    by (simp add: normalizePhone_v1_def t sciRepair_digits[OF assms] f Let_def)
qed

lemma normalizePhone_v2_digits:
  assumes "\<forall>c\<in>set s. isDigit c"
  shows "normalizePhone_v2 s =
     (if length s = 10 then ''91'' @ s
      else if length s = 12 \<and> startsWith s ''91'' then s
      else if length s = 11 \<and> startsWith s ''0'' then ''91'' @ drop 1 s
      else s)"
proof -
  have t: "trim s = s" using assms by (simp add: trim_no_space isDigit_not_isSpace)
  have f: "filter (\<lambda>c. isDigit c \<or> c = CHR ''+'') s = s" using assms by simp
  have "\<not> isDigit CHR ''+''" by (simp add: isDigit_def)
  then have "CHR ''+'' \<notin> set s" using assms by blast
  then have p: "\<not> startsWith s ''+''" by (auto dest: startsWith_subset)
  show ?thesis
    by (simp add: normalizePhone_v2_def t sciRepair_digits[OF assms] f p Let_def)
qed

text \<open>
  Claim C4, as amended. For every ten-digit subscriber number \<open>d\<close>, both revisions
  of the normalizer map \<open>d\<close>, \<open>d\<close> after a leading zero and \<open>d\<close> after the country
  code 91 to the one key \<open>91d\<close>; and the scientific-notation artifact written with
  a plus sign in its exponent, the string \<^verbatim>\<open>9.876543210E+9\<close> or
  \<^verbatim>\<open>9.876543210e+9\<close>, normalizes to the key of \<^verbatim>\<open>9876543210\<close>.
\<close>

theorem normalizePhone_canonical:
  assumes "length d = 10" and "\<forall>c\<in>set d. isDigit c"
  shows "normalizePhone_v1 d = ''91'' @ d \<and>
         normalizePhone_v1 (''0'' @ d) = ''91'' @ d \<and>
         normalizePhone_v1 (''91'' @ d) = ''91'' @ d \<and>
         normalizePhone_v2 d = ''91'' @ d \<and>
         normalizePhone_v2 (''0'' @ d) = ''91'' @ d \<and>
         normalizePhone_v2 (''91'' @ d) = ''91'' @ d \<and>
         normalizePhone_v1 ''9.876543210E+9'' = ''919876543210'' \<and>
         normalizePhone_v2 ''9.876543210E+9'' = ''919876543210'' \<and>
         normalizePhone_v1 ''9.876543210e+9'' = ''919876543210'' \<and>
         normalizePhone_v2 ''9.876543210e+9'' = ''919876543210''"
proof -
  have d0: "\<forall>c\<in>set (''0'' @ d). isDigit c" using assms(2) by (simp add: isDigit_def)
  have d91: "\<forall>c\<in>set (''91'' @ d). isDigit c" using assms(2) by (simp add: isDigit_def)
  have a: "normalizePhone_v1 d = ''91'' @ d"
    using assms by (simp add: normalizePhone_v1_digits)
  have b: "normalizePhone_v1 (''0'' @ d) = ''91'' @ d"
    using normalizePhone_v1_digits[OF d0] assms(1) by (simp add: startsWith_def)
  have c: "normalizePhone_v1 (''91'' @ d) = ''91'' @ d"
    using normalizePhone_v1_digits[OF d91] assms(1) by (simp add: startsWith_def)
  have a2: "normalizePhone_v2 d = ''91'' @ d"
    using assms by (simp add: normalizePhone_v2_digits)
  have b2: "normalizePhone_v2 (''0'' @ d) = ''91'' @ d"
    using normalizePhone_v2_digits[OF d0] assms(1) by (simp add: startsWith_def)
  have c2: "normalizePhone_v2 (''91'' @ d) = ''91'' @ d"
    using normalizePhone_v2_digits[OF d91] assms(1) by (simp add: startsWith_def)
  have e: "normalizePhone_v1 ''9.876543210E+9'' = ''919876543210''" by code_simp
  have e2: "normalizePhone_v2 ''9.876543210E+9'' = ''919876543210''" by code_simp
  have e3: "normalizePhone_v1 ''9.876543210e+9'' = ''919876543210''" by code_simp
  have e4: "normalizePhone_v2 ''9.876543210e+9'' = ''919876543210''" by code_simp
  show ?thesis using a b c a2 b2 c2 e e2 e3 e4 by simp
qed

theorem normalizePhone_canonical_witness:
  "normalizePhone_v1 ''9876543210'' = ''919876543210'' \<and>
   normalizePhone_v1 ''09876543210'' = ''919876543210'' \<and>
   normalizePhone_v1 ''919876543210'' = ''919876543210'' \<and>
   normalizePhone_v2 ''9876543210'' = ''919876543210'' \<and>
   normalizePhone_v2 ''09876543210'' = ''919876543210'' \<and>
   normalizePhone_v2 ''919876543210'' = ''919876543210''"
  using normalizePhone_canonical [of "''9876543210''"] by (simp add: isDigit_def)

text \<open>
  Claim C4 as stated fails at the string \<^verbatim>\<open>9.876543210E9\<close>: the repair looks for
  \<^verbatim>\<open>E+\<close> or \<^verbatim>\<open>e+\<close>, finds neither, and the digit filter keeps eleven digits.
\<close>

theorem normalizePhone_scientific_counterexample:
  "normalizePhone_v1 ''9.876543210E9'' = ''98765432109'' \<and>
   normalizePhone_v2 ''9.876543210E9'' = ''98765432109'' \<and>
   normalizePhone_v1 ''9.876543210E9'' \<noteq> ''919876543210'' \<and>
   normalizePhone_v2 ''9.876543210E9'' \<noteq> ''919876543210''"
  by code_simp

subsection \<open>Facts about splitting and joining\<close>

lemma split_not_Nil: "split c s \<noteq> []"
  by (induction s) (auto split: list.splits)

lemma split_no_sep: "c \<notin> set s \<Longrightarrow> split c s = [s]"
  by (induction s) auto

lemma split_append_sep: "split c (xs @ c # ys) = split c xs @ split c ys"
proof (induction xs)
  case Nil
  show ?case by simp
next
  case (Cons x xs)
  obtain r rs where rs: "split c xs = r # rs"
    using split_not_Nil [of c xs] by (cases "split c xs") auto
  show ?case
  proof (cases "x = c")
    case True
    then show ?thesis using Cons.IH by simp
  next
    case False
    then show ?thesis using Cons.IH rs by simp
  qed
qed

lemma split_rows_no_sep: "r \<in> set (split c s) \<Longrightarrow> c \<notin> set r"
proof (induction s arbitrary: r)
  case Nil
  then show ?case by simp
next
  case (Cons x xs)
  obtain q qs where qs: "split c xs = q # qs"
    using split_not_Nil [of c xs] by (cases "split c xs") auto
  show ?case
  proof (cases "x = c")
    case True
    with Cons.prems have "r = [] \<or> r \<in> set (split c xs)" by auto
    then show ?thesis using Cons.IH by auto
  next
    case False
    with Cons.prems qs have "r = x # q \<or> r \<in> set qs" by auto
    moreover have "c \<notin> set q" using Cons.IH [of q] qs by simp
    moreover have "r \<in> set qs \<Longrightarrow> c \<notin> set r" using Cons.IH [of r] qs by simp
    ultimately show ?thesis using False by auto
  qed
qed

lemma split_join:
  "rs \<noteq> [] \<Longrightarrow> (\<forall>r\<in>set rs. c \<notin> set r) \<Longrightarrow> split c (join [c] rs) = rs"
proof (induction rs)
  case Nil
  then show ?case by simp
next
  case (Cons r rs)
  show ?case
  proof (cases rs)
    case Nil
    then show ?thesis using Cons.prems by (simp add: split_no_sep)
  next
    case (Cons v va)
    then have "join [c] (r # rs) = r @ c # join [c] rs" by simp
    then have "split c (join [c] (r # rs)) = split c r @ split c (join [c] rs)"
      by (simp add: split_append_sep)
    also have "\<dots> = [r] @ rs"
      using Cons.prems Cons.IH Cons by (simp add: split_no_sep)
    finally show ?thesis by simp
  qed
qed

lemma split_join_terminated:
  assumes "rs \<noteq> []" and "\<forall>r\<in>set rs. c \<notin> set r"
  shows "split c (join [c] rs @ [c]) = rs @ [[]]"
proof -
  have "split c (join [c] rs @ c # []) = split c (join [c] rs) @ split c []"
    by (rule split_append_sep)
  then show ?thesis using assms by (simp add: split_join)
qed

subsection \<open>Facts about log entries\<close>

lemma digit_nth: "k < 10 \<Longrightarrow> isDigit (''0123456789'' ! k)"
  by (simp add: isDigit_def nth_Cons')

lemma digitChar_isDigit: "isDigit (digitChar d)"
  unfolding digitChar_def by (rule digit_nth) simp

lemma decimal_digits: "\<forall>c\<in>set (decimal n). isDigit c"
proof (induction n rule: decimal.induct)
  case (1 n)
  show ?case
  proof (cases "n < 10")
    case True
    then show ?thesis by (subst decimal.simps) (simp add: digitChar_isDigit)
  next
    case False
    then show ?thesis using 1 by (subst decimal.simps) (simp add: digitChar_isDigit)
  qed
qed

lemma LF_not_digit: "\<not> isDigit (CHR 0x0A)"
  by (simp add: isDigit_def)

lemma showInt_no_LF: "CHR 0x0A \<notin> set (showInt n)"
  using decimal_digits LF_not_digit by (auto simp: showInt_def)

lemma padStart2_no_LF: "CHR 0x0A \<notin> set s \<Longrightarrow> CHR 0x0A \<notin> set (padStart2 s)"
  by (auto simp: padStart2_def)

lemma formatTimestamp_no_LF: "CHR 0x0A \<notin> set (formatTimestamp d)"
  by (simp add: formatTimestamp_def showInt_no_LF padStart2_no_LF)

lemma replaceNewlines_no_LF: "CHR 0x0A \<notin> set (replaceNewlines s)"
  by (induction s rule: replaceNewlines.induct) auto

lemma set_trim_subset: "set (trim s) \<subseteq> set s"
proof -
  have "set (trim s) = set (dropWhile isSpace (rev (dropWhile isSpace s)))"
    by (simp add: trim_def)
  also have "\<dots> \<subseteq> set (rev (dropWhile isSpace s))" by (rule set_dropWhileD [THEN subsetI])
  also have "\<dots> \<subseteq> set s" using set_dropWhileD [of _ isSpace s] by auto
  finally show ?thesis .
qed

lemma sanitizeName_no_LF: "CHR 0x0A \<notin> set (sanitizeName n)"
  using set_trim_subset [of "replaceNewlines (replaceCommas n)"] replaceNewlines_no_LF
  by (auto simp: sanitizeName_def)

lemma normalizePhone_v1_digits_only: "\<forall>c\<in>set (normalizePhone_v1 p). isDigit c"
  by (auto simp: normalizePhone_v1_def Let_def isDigit_def dest: in_set_dropD)

lemma normalizePhone_v2_chars: "\<forall>c\<in>set (normalizePhone_v2 p). isDigit c \<or> c = CHR ''+''"
  by (auto simp: normalizePhone_v2_def Let_def isDigit_def dest: in_set_dropD)

lemma normalizePhone_v1_no_LF: "CHR 0x0A \<notin> set (normalizePhone_v1 p)"
  using normalizePhone_v1_digits_only LF_not_digit by blast

lemma normalizePhone_v2_no_LF: "CHR 0x0A \<notin> set (normalizePhone_v2 p)"
  using normalizePhone_v2_chars [of p] LF_not_digit by auto

lemma mainRow_v1_no_LF:
  assumes "CHR 0x0A \<notin> set (norm ph)" and "CHR 0x0A \<notin> set st"
  shows "CHR 0x0A \<notin> set (mainRow_v1 (mkEntry norm d ph nm st))"
  using assms
  by (simp add: mainRow_v1_def mkEntry_def formatTimestamp_no_LF sanitizeName_no_LF)

lemma shortRow_no_LF:
  assumes "CHR 0x0A \<notin> set (norm ph)" and "CHR 0x0A \<notin> set st"
  shows "CHR 0x0A \<notin> set (shortRow (mkEntry norm d ph nm st))"
  using assms
  by (simp add: shortRow_def mkEntry_def formatTimestamp_no_LF sanitizeName_no_LF)

subsection \<open>Facts about the single-writer queue\<close>

lemma endsWith_single: "endsWith s [c] = (s \<noteq> [] \<and> last s = c)"
proof (cases s rule: rev_cases)
  case Nil
  then show ?thesis by (simp add: endsWith_def)
next
  case (snoc ys y)
  then show ?thesis by (auto simp: endsWith_def)
qed

lemma writeEntry_repairs:
  assumes "content \<noteq> []" and "last content \<noteq> CHR 0x0A"
    and "\<not> readFails x" and "\<not> appendNewlineFails x" and "\<not> appendLineFails x"
  shows "writeEntry header line x (Some content) = (True, Some (content @ [CHR 0x0A] @ line))"
  using assms by (simp add: writeEntry_def endsWith_single)

lemma rows_after_repair:
  assumes "CHR 0x0A \<notin> set row"
  shows "split (CHR 0x0A) (content @ [CHR 0x0A] @ row @ [CHR 0x0A]) =
         split (CHR 0x0A) content @ [row, []]"
proof -
  have "split (CHR 0x0A) (content @ CHR 0x0A # (row @ [CHR 0x0A])) =
        split (CHR 0x0A) content @ split (CHR 0x0A) (row @ CHR 0x0A # [])"
    by (simp add: split_append_sep)
  also have "split (CHR 0x0A) (row @ CHR 0x0A # []) = split (CHR 0x0A) row @ split (CHR 0x0A) []"
    by (rule split_append_sep)
  also have "\<dots> = [row, []]" using assms by (simp add: split_no_sep)
  finally show ?thesis by simp
qed

lemma processEntry_repairs:
  assumes "content \<noteq> []" and "last content \<noteq> CHR 0x0A"
    and "\<not> readFails x" and "\<not> appendNewlineFails x" and "\<not> appendLineFails x"
    and "\<not> isProcessing ch" and "\<not> fileLock ch" and "logFile ch = Some content"
    and "pending ch = e # rest"
  shows "processEntry header line x ch =
         Some (ch\<lparr>pending := rest, logFile := Some (content @ [CHR 0x0A] @ line e),
                  fileLock := False, isProcessing := False\<rparr>)"
  using assms by (simp add: processEntry_def writeEntry_repairs)

text \<open>
  Claim C8. An existing log file that is not empty and does not end in a line feed
  gets, from one attempt of the queue that meets no file-system failure, the missing
  line feed and then the line of the entry: the rows the file had are the rows it
  still has, one row follows them, and the file ends in a line feed. This holds for
  the seven-column line of the earlier revision and for the four-column line of the
  later revision and of the catalog log.
\<close>

theorem newline_self_repair:
  assumes "content \<noteq> []" and "last content \<noteq> CHR 0x0A"
    and "\<not> readFails x" and "\<not> appendNewlineFails x" and "\<not> appendLineFails x"
    and "\<not> isProcessing ch" and "\<not> fileLock ch" and "logFile ch = Some content"
    and "pending ch = e # rest"
    and "e = mkEntry norm d ph nm st"
    and "norm = normalizePhone_v1 \<or> norm = normalizePhone_v2"
    and "CHR 0x0A \<notin> set st"
  shows "processEntry mainHeader_v1 mainLine_v1 x ch =
           Some (ch\<lparr>pending := rest,
                    logFile := Some (content @ [CHR 0x0A] @ mainRow_v1 e @ [CHR 0x0A]),
                    fileLock := False, isProcessing := False\<rparr>) \<and>
         split (CHR 0x0A) (content @ [CHR 0x0A] @ mainRow_v1 e @ [CHR 0x0A]) =
           split (CHR 0x0A) content @ [mainRow_v1 e, []] \<and>
         processEntry shortHeader shortLine x ch =
           Some (ch\<lparr>pending := rest,
                    logFile := Some (content @ [CHR 0x0A] @ shortRow e @ [CHR 0x0A]),
                    fileLock := False, isProcessing := False\<rparr>) \<and>
         split (CHR 0x0A) (content @ [CHR 0x0A] @ shortRow e @ [CHR 0x0A]) =
           split (CHR 0x0A) content @ [shortRow e, []]"
proof -
  have n: "CHR 0x0A \<notin> set (norm ph)"
    using assms(11) normalizePhone_v1_no_LF normalizePhone_v2_no_LF by auto
  have r1: "CHR 0x0A \<notin> set (mainRow_v1 e)"
    unfolding assms(10) using n assms(12) by (rule mainRow_v1_no_LF)
  have r2: "CHR 0x0A \<notin> set (shortRow e)"
    unfolding assms(10) using n assms(12) by (rule shortRow_no_LF)
  have p1: "processEntry mainHeader_v1 mainLine_v1 x ch =
           Some (ch\<lparr>pending := rest,
                    logFile := Some (content @ [CHR 0x0A] @ mainLine_v1 e),
                    fileLock := False, isProcessing := False\<rparr>)"
    using assms(1-9) by (rule processEntry_repairs)
  have p2: "processEntry shortHeader shortLine x ch =
           Some (ch\<lparr>pending := rest,
                    logFile := Some (content @ [CHR 0x0A] @ shortLine e),
                    fileLock := False, isProcessing := False\<rparr>)"
    using assms(1-9) by (rule processEntry_repairs)
  show ?thesis
    using p1 p2 rows_after_repair [OF r1] rows_after_repair [OF r2]
    by (simp add: mainLine_v1_def shortLine_def)
qed

theorem newline_self_repair_witness:
  "processEntry shortHeader shortLine
     \<lparr>writeHeaderFails = False, readFails = False, appendNewlineFails = False,
      appendLineFails = False\<rparr>
     \<lparr>pending = [mkEntry normalizePhone_v2
                   \<lparr>fullYear = 2025, monthIndex = 6, dayOfMonth = 20, hours = 9, minutes = 5,
                    seconds = 7, timeValue = 1752982507000\<rparr>
                   ''9876543210'' ''Asha'' ''Sent''],
      isProcessing = False, fileLock = False,
      logFile = Some (''Phone,Name,Timestamp,Status'' @ [CHR 0x0A] @ ''911234567890,Ravi,2025-07-19 10:00:00,Se'')\<rparr>
   = Some \<lparr>pending = [], isProcessing = False, fileLock = False,
           logFile = Some (''Phone,Name,Timestamp,Status'' @ [CHR 0x0A] @
                           ''911234567890,Ravi,2025-07-19 10:00:00,Se'' @ [CHR 0x0A] @
                           ''919876543210,Asha,2025-07-20 09:05:07,Sent'' @ [CHR 0x0A])\<rparr> \<and>
   split (CHR 0x0A)
     (''Phone,Name,Timestamp,Status'' @ [CHR 0x0A] @
      ''911234567890,Ravi,2025-07-19 10:00:00,Se'' @ [CHR 0x0A] @
      ''919876543210,Asha,2025-07-20 09:05:07,Sent'' @ [CHR 0x0A])
   = [''Phone,Name,Timestamp,Status'', ''911234567890,Ravi,2025-07-19 10:00:00,Se'',
      ''919876543210,Asha,2025-07-20 09:05:07,Sent'', []]"
proof -
  have e: "shortRow (mkEntry normalizePhone_v2
                   \<lparr>fullYear = 2025, monthIndex = 6, dayOfMonth = 20, hours = 9, minutes = 5,
                    seconds = 7, timeValue = 1752982507000\<rparr>
                   ''9876543210'' ''Asha'' ''Sent'') = ''919876543210,Asha,2025-07-20 09:05:07,Sent''"
    by code_simp
  show ?thesis
    using newline_self_repair [of
        "''Phone,Name,Timestamp,Status'' @ [CHR 0x0A] @ ''911234567890,Ravi,2025-07-19 10:00:00,Se''"
        "\<lparr>writeHeaderFails = False, readFails = False, appendNewlineFails = False,
          appendLineFails = False\<rparr>"
        "\<lparr>pending = [mkEntry normalizePhone_v2
                   \<lparr>fullYear = 2025, monthIndex = 6, dayOfMonth = 20, hours = 9, minutes = 5,
                    seconds = 7, timeValue = 1752982507000\<rparr>
                   ''9876543210'' ''Asha'' ''Sent''],
          isProcessing = False, fileLock = False,
          logFile = Some (''Phone,Name,Timestamp,Status'' @ [CHR 0x0A] @ ''911234567890,Ravi,2025-07-19 10:00:00,Se'')\<rparr>"
        "mkEntry normalizePhone_v2
                   \<lparr>fullYear = 2025, monthIndex = 6, dayOfMonth = 20, hours = 9, minutes = 5,
                    seconds = 7, timeValue = 1752982507000\<rparr>
                   ''9876543210'' ''Asha'' ''Sent''"
        "[]" normalizePhone_v2
        "\<lparr>fullYear = 2025, monthIndex = 6, dayOfMonth = 20, hours = 9, minutes = 5,
                    seconds = 7, timeValue = 1752982507000\<rparr>"
        "''9876543210''" "''Asha''" "''Sent''"]
    by (simp add: e)
qed

lemma writeEntry_grows:
  assumes "writeEntry header line x f = (b, f')"
  shows "\<exists>suffix. (case f' of None \<Rightarrow> [] | Some c \<Rightarrow> c) =
                  (case f of None \<Rightarrow> [] | Some c \<Rightarrow> c) @ suffix"
  using assms by (auto simp: writeEntry_def Let_def split: option.splits if_splits)

lemma writeEntry_completed:
  assumes "writeEntry header line x f = (True, f')"
  shows "\<exists>pre. (case f' of None \<Rightarrow> [] | Some c \<Rightarrow> c) = pre @ line"
  using assms by (auto simp: writeEntry_def Let_def split: option.splits if_splits)

lemma writeEntry_fails_iff:
  "fst (writeEntry header line x f) =
     (\<not> (appendLineFails x \<or> (f = None \<and> writeHeaderFails x)))"
  by (auto simp: writeEntry_def Let_def split: option.splits)

lemma processEntry_cases:
  assumes "\<not> fileLock ch"
  shows "\<exists>ch' suffix. processEntry header line x ch = Some ch' \<and> \<not> fileLock ch' \<and>
           (case logFile ch' of None \<Rightarrow> [] | Some c \<Rightarrow> c) =
             (case logFile ch of None \<Rightarrow> [] | Some c \<Rightarrow> c) @ suffix \<and>
           (pending ch' = pending ch \<or>
            (\<exists>e rest pre. pending ch = e # rest \<and> pending ch' = rest \<and>
               (case logFile ch' of None \<Rightarrow> [] | Some c \<Rightarrow> c) = pre @ line e))"
proof (cases "isProcessing ch \<or> pending ch = []")
  case True
  then show ?thesis using assms by (auto simp: processEntry_def)
next
  case False
  then obtain e rest where p: "pending ch = e # rest" by (cases "pending ch") auto
  obtain b f' where w: "writeEntry header (line e) x (logFile ch) = (b, f')"
    by (cases "writeEntry header (line e) x (logFile ch)") auto
  have pe: "processEntry header line x ch =
      Some (ch\<lparr>pending := (if b then rest else e # rest), logFile := f',
               fileLock := False, isProcessing := False\<rparr>)"
    using False assms p w by (simp add: processEntry_def)
  obtain suffix where g: "(case f' of None \<Rightarrow> [] | Some c \<Rightarrow> c) =
      (case logFile ch of None \<Rightarrow> [] | Some c \<Rightarrow> c) @ suffix"
    using writeEntry_grows [OF w] by blast
  let ?ch' = "ch\<lparr>pending := (if b then rest else e # rest), logFile := f',
               fileLock := False, isProcessing := False\<rparr>"
  have l: "\<not> fileLock ?ch'" by simp
  have g': "(case logFile ?ch' of None \<Rightarrow> [] | Some c \<Rightarrow> c) =
      (case logFile ch of None \<Rightarrow> [] | Some c \<Rightarrow> c) @ suffix"
    using g by simp
  have c: "pending ?ch' = pending ch \<or>
            (\<exists>e rest pre. pending ch = e # rest \<and> pending ?ch' = rest \<and>
               (case logFile ?ch' of None \<Rightarrow> [] | Some c \<Rightarrow> c) = pre @ line e)"
  proof (cases b)
    case True
    with w have "writeEntry header (line e) x (logFile ch) = (True, f')" by simp
    then obtain pre where "(case f' of None \<Rightarrow> [] | Some c \<Rightarrow> c) = pre @ line e"
      using writeEntry_completed by blast
    then have "pending ch = e # rest \<and> pending ?ch' = rest \<and>
               (case logFile ?ch' of None \<Rightarrow> [] | Some c \<Rightarrow> c) = pre @ line e"
      using p True by simp
    then show ?thesis by blast
  next
    case False
    then show ?thesis using p by simp
  qed
  show ?thesis using pe l g' c by blast
qed

lemma processLogQueue_keeps_entries:
  assumes "\<not> fileLock ch"
  shows "\<exists>ch' k. processLogQueue header line xs ch = Some ch' \<and> \<not> fileLock ch' \<and>
           pending ch' = drop k (pending ch) \<and>
           (\<forall>e\<in>set (take k (pending ch)).
              \<exists>pre post. (case logFile ch' of None \<Rightarrow> [] | Some c \<Rightarrow> c) = pre @ line e @ post)"
  using assms
proof (induction xs arbitrary: ch)
  case Nil
  show ?case by (rule exI [of _ ch], rule exI [of _ 0]) (simp add: Nil)
next
  case (Cons x xs)
  obtain ch1 suffix where s1: "processEntry header line x ch = Some ch1" "\<not> fileLock ch1"
    and g1: "(case logFile ch1 of None \<Rightarrow> [] | Some c \<Rightarrow> c) =
             (case logFile ch of None \<Rightarrow> [] | Some c \<Rightarrow> c) @ suffix"
    and c1: "pending ch1 = pending ch \<or>
            (\<exists>e rest pre. pending ch = e # rest \<and> pending ch1 = rest \<and>
               (case logFile ch1 of None \<Rightarrow> [] | Some c \<Rightarrow> c) = pre @ line e)"
    using processEntry_cases [OF Cons.prems, of header line x] by blast
  obtain ch2 k where s2: "processLogQueue header line xs ch1 = Some ch2" "\<not> fileLock ch2"
    and p2: "pending ch2 = drop k (pending ch1)"
    and i2: "\<forall>e\<in>set (take k (pending ch1)).
              \<exists>pre post. (case logFile ch2 of None \<Rightarrow> [] | Some c \<Rightarrow> c) = pre @ line e @ post"
    using Cons.IH [OF s1(2)] by blast
  have run: "processLogQueue header line (x # xs) ch = Some ch2" using s1 s2 by simp
  obtain suffix2 where g2: "(case logFile ch2 of None \<Rightarrow> [] | Some c \<Rightarrow> c) =
             (case logFile ch1 of None \<Rightarrow> [] | Some c \<Rightarrow> c) @ suffix2"
  proof -
    have "\<exists>ch' k. processLogQueue header line xs ch1 = Some ch' \<and>
           (\<exists>sf. (case logFile ch' of None \<Rightarrow> [] | Some c \<Rightarrow> c) =
             (case logFile ch1 of None \<Rightarrow> [] | Some c \<Rightarrow> c) @ sf)"
      using s1(2)
    proof (induction xs arbitrary: ch1)
      case Nil
      then show ?case by simp
    next
      case (Cons y ys)
      obtain d sf where d: "processEntry header line y ch1 = Some d" "\<not> fileLock d"
        "(case logFile d of None \<Rightarrow> [] | Some c \<Rightarrow> c) =
             (case logFile ch1 of None \<Rightarrow> [] | Some c \<Rightarrow> c) @ sf"
        using processEntry_cases [OF Cons.prems, of header line y] by blast
      obtain d' sf' where d': "processLogQueue header line ys d = Some d'"
        "(case logFile d' of None \<Rightarrow> [] | Some c \<Rightarrow> c) =
             (case logFile d of None \<Rightarrow> [] | Some c \<Rightarrow> c) @ sf'"
        using Cons.IH [OF d(2)] by blast
      show ?case using d d' by auto
    qed
    then show ?thesis using s2(1) that by auto
  qed
  from c1 show ?case
  proof
    assume same: "pending ch1 = pending ch"
    show ?thesis
      by (rule exI [of _ ch2], rule exI [of _ k]) (use run s2 p2 i2 same in auto)
  next
    assume "\<exists>e rest pre. pending ch = e # rest \<and> pending ch1 = rest \<and>
               (case logFile ch1 of None \<Rightarrow> [] | Some c \<Rightarrow> c) = pre @ line e"
    then obtain e rest pre where p: "pending ch = e # rest" "pending ch1 = rest"
      and w: "(case logFile ch1 of None \<Rightarrow> [] | Some c \<Rightarrow> c) = pre @ line e"
      by blast
    have first: "(case logFile ch2 of None \<Rightarrow> [] | Some c \<Rightarrow> c) = pre @ line e @ suffix2"
      using g2 w by simp
    have "\<forall>e'\<in>set (take (Suc k) (pending ch)).
              \<exists>pre post. (case logFile ch2 of None \<Rightarrow> [] | Some c \<Rightarrow> c) = pre @ line e' @ post"
      using p i2 first by auto
    moreover have "pending ch2 = drop (Suc k) (pending ch)" using p p2 by simp
    ultimately show ?thesis
      using run s2 by blast
  qed
qed

text \<open>
  Claim C9. When the write of a queued entry fails (the append of its line
  rejects, or the file is missing and cannot be created), the attempt ends with
  the entry back at the front of its queue, before the entries that waited behind
  it, and with the lock and the flag released. So over any number of attempts and
  whatever the file system does, the queue only ever loses entries from its front,
  and the line of each entry it lost is in the file.
\<close>

theorem failed_write_requeues:
  assumes "\<not> isProcessing ch" and "\<not> fileLock ch" and "pending ch = e # rest"
  shows "((appendLineFails x \<or> (logFile ch = None \<and> writeHeaderFails x)) \<longrightarrow>
            (\<exists>ch'. processEntry header line x ch = Some ch' \<and> pending ch' = e # rest \<and>
                   \<not> isProcessing ch' \<and> \<not> fileLock ch')) \<and>
         (\<exists>ch' k. processLogQueue header line xs ch = Some ch' \<and>
            pending ch' = drop k (e # rest) \<and>
            (\<forall>e'\<in>set (take k (e # rest)).
               \<exists>pre post. (case logFile ch' of None \<Rightarrow> [] | Some c \<Rightarrow> c) = pre @ line e' @ post))"
proof
  show "(appendLineFails x \<or> (logFile ch = None \<and> writeHeaderFails x)) \<longrightarrow>
            (\<exists>ch'. processEntry header line x ch = Some ch' \<and> pending ch' = e # rest \<and>
                   \<not> isProcessing ch' \<and> \<not> fileLock ch')"
  proof
    assume f: "appendLineFails x \<or> (logFile ch = None \<and> writeHeaderFails x)"
    then have "\<not> fst (writeEntry header (line e) x (logFile ch))"
      by (simp add: writeEntry_fails_iff)
    then obtain f' where "writeEntry header (line e) x (logFile ch) = (False, f')"
      by (cases "writeEntry header (line e) x (logFile ch)") auto
    then show "\<exists>ch'. processEntry header line x ch = Some ch' \<and> pending ch' = e # rest \<and>
                   \<not> isProcessing ch' \<and> \<not> fileLock ch'"
      using assms by (simp add: processEntry_def)
  qed
  show "\<exists>ch' k. processLogQueue header line xs ch = Some ch' \<and>
            pending ch' = drop k (e # rest) \<and>
            (\<forall>e'\<in>set (take k (e # rest)).
               \<exists>pre post. (case logFile ch' of None \<Rightarrow> [] | Some c \<Rightarrow> c) = pre @ line e' @ post)"
    using processLogQueue_keeps_entries [OF assms(2), of header line xs] assms(3) by auto
qed

theorem failed_write_requeues_witness:
  "\<exists>ch'. processEntry shortHeader shortLine
           \<lparr>writeHeaderFails = False, readFails = False, appendNewlineFails = False,
            appendLineFails = True\<rparr>
           \<lparr>pending =
              [\<lparr>phone = ''919876543210'', name = ''Asha'', timestamp = ''2025-07-20 09:05:07'',
                status = ''Sent'', seenTimestamp = [], timeToSee = [], lastUpdated = []\<rparr>,
               \<lparr>phone = ''911234567890'', name = ''Ravi'', timestamp = ''2025-07-20 09:05:12'',
                status = ''Failed'', seenTimestamp = [], timeToSee = [], lastUpdated = []\<rparr>],
            isProcessing = False, fileLock = False, logFile = Some shortHeader\<rparr>
         = Some ch' \<and>
         pending ch' =
           [\<lparr>phone = ''919876543210'', name = ''Asha'', timestamp = ''2025-07-20 09:05:07'',
             status = ''Sent'', seenTimestamp = [], timeToSee = [], lastUpdated = []\<rparr>,
            \<lparr>phone = ''911234567890'', name = ''Ravi'', timestamp = ''2025-07-20 09:05:12'',
             status = ''Failed'', seenTimestamp = [], timeToSee = [], lastUpdated = []\<rparr>] \<and>
         \<not> isProcessing ch' \<and> \<not> fileLock ch'"
  using failed_write_requeues [of
      "\<lparr>pending =
              [\<lparr>phone = ''919876543210'', name = ''Asha'', timestamp = ''2025-07-20 09:05:07'',
                status = ''Sent'', seenTimestamp = [], timeToSee = [], lastUpdated = []\<rparr>,
               \<lparr>phone = ''911234567890'', name = ''Ravi'', timestamp = ''2025-07-20 09:05:12'',
                status = ''Failed'', seenTimestamp = [], timeToSee = [], lastUpdated = []\<rparr>],
            isProcessing = False, fileLock = False, logFile = Some shortHeader\<rparr>"
      "\<lparr>phone = ''919876543210'', name = ''Asha'', timestamp = ''2025-07-20 09:05:07'',
                status = ''Sent'', seenTimestamp = [], timeToSee = [], lastUpdated = []\<rparr>"
      "[\<lparr>phone = ''911234567890'', name = ''Ravi'', timestamp = ''2025-07-20 09:05:12'',
                status = ''Failed'', seenTimestamp = [], timeToSee = [], lastUpdated = []\<rparr>]"
      "\<lparr>writeHeaderFails = False, readFails = False, appendNewlineFails = False,
            appendLineFails = True\<rparr>"
      shortHeader shortLine "[]"]
  by simp

subsection \<open>Facts about the row loop\<close>

lemma scanRows_Nil [simp]: "scanRows env np [] sc = sc"
  by (simp add: scanRows_def)

lemma scanRows_Cons [simp]:
  "scanRows env np (row # rows) sc = scanRows env np rows (scanRow env np sc row)"
  by (simp add: scanRows_def)

lemma scanRow_blank: "blankRow row \<Longrightarrow> scanRow env np sc row = sc"
  by (simp add: scanRow_def)

lemma scanRow_rewrite:
  assumes "\<not> blankRow row" and "rowHas np ''Sent'' row" and "\<not> updated sc" and "\<not> alreadySeen sc"
  shows "scanRow env np sc row =
         sc\<lparr>newRows := newRows sc @ [updatedRow env row],
            customerName := Some (column (split (CHR '','') row) 1), updated := True\<rparr>"
  using assms by (simp add: scanRow_def rowHas_def Let_def)

lemma scanRow_copy:
  assumes "\<not> blankRow row" and "\<not> (rowHas np ''Sent'' row \<and> \<not> updated sc \<and> \<not> alreadySeen sc)"
  shows "scanRow env np sc row =
         sc\<lparr>newRows := newRows sc @ [row],
            alreadySeen := (alreadySeen sc \<or> rowHas np ''Seen'' row)\<rparr>"
  using assms by (auto simp: scanRow_def rowHas_def Let_def)

lemma scanRow_cases:
  obtains (blank) "blankRow row" "scanRow env np sc row = sc"
  | (rewrite) "\<not> blankRow row" "rowHas np ''Sent'' row" "\<not> updated sc" "\<not> alreadySeen sc"
      "scanRow env np sc row =
         sc\<lparr>newRows := newRows sc @ [updatedRow env row],
            customerName := Some (column (split (CHR '','') row) 1), updated := True\<rparr>"
  | (copy) "\<not> blankRow row" "\<not> (rowHas np ''Sent'' row \<and> \<not> updated sc \<and> \<not> alreadySeen sc)"
      "scanRow env np sc row =
         sc\<lparr>newRows := newRows sc @ [row],
            alreadySeen := (alreadySeen sc \<or> rowHas np ''Seen'' row)\<rparr>"
  using scanRow_blank scanRow_rewrite scanRow_copy by blast

lemma scanRows_after_update:
  assumes "updated sc"
  shows "newRows (scanRows env np rows sc) = newRows sc @ filter (\<lambda>row. \<not> blankRow row) rows \<and>
         updated (scanRows env np rows sc) \<and>
         customerName (scanRows env np rows sc) = customerName sc"
  using assms
proof (induction rows arbitrary: sc)
  case Nil
  then show ?case by simp
next
  case (Cons row rows)
  show ?case
  proof (cases rule: scanRow_cases [of row env np sc])
    case blank
    then show ?thesis using Cons.IH [OF Cons.prems] by simp
  next
    case rewrite
    then show ?thesis using Cons.prems by simp
  next
    case copy
    then show ?thesis
      using Cons.prems
        Cons.IH [of "sc\<lparr>newRows := newRows sc @ [row],
            alreadySeen := (alreadySeen sc \<or> rowHas np ''Seen'' row)\<rparr>"]
      by simp
  qed
qed

lemma scanRows_when_seen:
  assumes "alreadySeen sc"
  shows "newRows (scanRows env np rows sc) = newRows sc @ filter (\<lambda>row. \<not> blankRow row) rows \<and>
         updated (scanRows env np rows sc) = updated sc \<and>
         customerName (scanRows env np rows sc) = customerName sc \<and>
         alreadySeen (scanRows env np rows sc)"
  using assms
proof (induction rows arbitrary: sc)
  case Nil
  then show ?case by simp
next
  case (Cons row rows)
  show ?case
  proof (cases rule: scanRow_cases [of row env np sc])
    case blank
    then show ?thesis using Cons.IH [OF Cons.prems] by simp
  next
    case rewrite
    then show ?thesis using Cons.prems by simp
  next
    case copy
    then show ?thesis
      using Cons.prems
        Cons.IH [of "sc\<lparr>newRows := newRows sc @ [row],
            alreadySeen := (alreadySeen sc \<or> rowHas np ''Seen'' row)\<rparr>"]
      by simp
  qed
qed

lemma scanRows_updated_clock:
  assumes "updated sc = updated sc'" and "alreadySeen sc = alreadySeen sc'"
  shows "updated (scanRows env np rows sc) = updated (scanRows env' np rows sc') \<and>
         alreadySeen (scanRows env np rows sc) = alreadySeen (scanRows env' np rows sc')"
  using assms
proof (induction rows arbitrary: sc sc')
  case Nil
  then show ?case by simp
next
  case (Cons row rows)
  show ?case
  proof (cases rule: scanRow_cases [of row env np sc])
    case blank
    then show ?thesis using Cons.IH [OF Cons.prems] by (simp add: scanRow_blank)
  next
    case rewrite
    then have "scanRow env' np sc' row =
         sc'\<lparr>newRows := newRows sc' @ [updatedRow env' row],
            customerName := Some (column (split (CHR '','') row) 1), updated := True\<rparr>"
      using Cons.prems by (simp add: scanRow_rewrite)
    then show ?thesis
      using rewrite(5) Cons.prems
        Cons.IH [of "sc\<lparr>newRows := newRows sc @ [updatedRow env row],
            customerName := Some (column (split (CHR '','') row) 1), updated := True\<rparr>"
          "sc'\<lparr>newRows := newRows sc' @ [updatedRow env' row],
            customerName := Some (column (split (CHR '','') row) 1), updated := True\<rparr>"]
      by simp
  next
    case copy
    then have "scanRow env' np sc' row =
         sc'\<lparr>newRows := newRows sc' @ [row],
            alreadySeen := (alreadySeen sc' \<or> rowHas np ''Seen'' row)\<rparr>"
      using Cons.prems by (simp add: scanRow_copy)
    then show ?thesis
      using copy(3) Cons.prems
        Cons.IH [of "sc\<lparr>newRows := newRows sc @ [row],
            alreadySeen := (alreadySeen sc \<or> rowHas np ''Seen'' row)\<rparr>"
          "sc'\<lparr>newRows := newRows sc' @ [row],
            alreadySeen := (alreadySeen sc' \<or> rowHas np ''Seen'' row)\<rparr>"]
      by simp
  qed
qed

lemma rowHas_Sent_not_Seen: "rowHas np ''Sent'' row \<Longrightarrow> \<not> rowHas np ''Seen'' row"
  by (simp add: rowHas_def)

lemma scanRows_alreadySeen:
  "alreadySeen (scanRows env np rows sc) =
     (alreadySeen sc \<or> (\<exists>row\<in>set rows. \<not> blankRow row \<and> rowHas np ''Seen'' row))"
proof (induction rows arbitrary: sc)
  case Nil
  show ?case by simp
next
  case (Cons row rows)
  show ?case
  proof (cases rule: scanRow_cases [of row env np sc])
    case blank
    then show ?thesis using Cons.IH [of sc] by auto
  next
    case rewrite
    then show ?thesis
      using rowHas_Sent_not_Seen [of np row]
        Cons.IH [of "sc\<lparr>newRows := newRows sc @ [updatedRow env row],
            customerName := Some (column (split (CHR '','') row) 1), updated := True\<rparr>"]
      by auto
  next
    case copy
    then show ?thesis
      using Cons.IH [of "sc\<lparr>newRows := newRows sc @ [row],
            alreadySeen := (alreadySeen sc \<or> rowHas np ''Seen'' row)\<rparr>"]
      by auto
  qed
qed

lemma scanRows_frame:
  "(newRows (scanRows env np rows sc) = newRows sc @ filter (\<lambda>row. \<not> blankRow row) rows \<and>
    updated (scanRows env np rows sc) = updated sc \<and>
    customerName (scanRows env np rows sc) = customerName sc) \<or>
   (\<not> updated sc \<and> updated (scanRows env np rows sc) \<and>
    (\<exists>pre row post.
       filter (\<lambda>row. \<not> blankRow row) rows = pre @ row # post \<and>
       rowHas np ''Sent'' row \<and>
       newRows (scanRows env np rows sc) = newRows sc @ pre @ updatedRow env row # post \<and>
       customerName (scanRows env np rows sc) = Some (column (split (CHR '','') row) 1)))"
proof (induction rows arbitrary: sc)
  case Nil
  show ?case by simp
next
  case (Cons row rows)
  show ?case
  proof (cases rule: scanRow_cases [of row env np sc])
    case blank
    then show ?thesis using Cons.IH [of sc] by simp
  next
    case rewrite
    let ?sc = "sc\<lparr>newRows := newRows sc @ [updatedRow env row],
            customerName := Some (column (split (CHR '','') row) 1), updated := True\<rparr>"
    have u: "updated ?sc" by simp
    have "filter (\<lambda>row. \<not> blankRow row) (row # rows) =
            [] @ row # filter (\<lambda>row. \<not> blankRow row) rows \<and>
          rowHas np ''Sent'' row \<and>
          newRows (scanRows env np (row # rows) sc) =
            newRows sc @ [] @ updatedRow env row # filter (\<lambda>row. \<not> blankRow row) rows \<and>
          customerName (scanRows env np (row # rows) sc) = Some (column (split (CHR '','') row) 1)"
      using rewrite scanRows_after_update [OF u, of env np rows] by simp
    then have "\<exists>pre r post.
       filter (\<lambda>row. \<not> blankRow row) (row # rows) = pre @ r # post \<and>
       rowHas np ''Sent'' r \<and>
       newRows (scanRows env np (row # rows) sc) = newRows sc @ pre @ updatedRow env r # post \<and>
       customerName (scanRows env np (row # rows) sc) = Some (column (split (CHR '','') r) 1)"
      by blast
    moreover have "updated (scanRows env np (row # rows) sc)"
      using rewrite scanRows_after_update [OF u, of env np rows] by simp
    ultimately show ?thesis using rewrite(3) by blast
  next
    case copy
    let ?sc = "sc\<lparr>newRows := newRows sc @ [row],
            alreadySeen := (alreadySeen sc \<or> rowHas np ''Seen'' row)\<rparr>"
    from Cons.IH [of ?sc] show ?thesis
    proof
      assume "newRows (scanRows env np rows ?sc) = newRows ?sc @ filter (\<lambda>row. \<not> blankRow row) rows \<and>
        updated (scanRows env np rows ?sc) = updated ?sc \<and>
        customerName (scanRows env np rows ?sc) = customerName ?sc"
      then show ?thesis using copy by simp
    next
      assume "\<not> updated ?sc \<and> updated (scanRows env np rows ?sc) \<and>
        (\<exists>pre row post.
          filter (\<lambda>row. \<not> blankRow row) rows = pre @ row # post \<and>
          rowHas np ''Sent'' row \<and>
          newRows (scanRows env np rows ?sc) = newRows ?sc @ pre @ updatedRow env row # post \<and>
          customerName (scanRows env np rows ?sc) = Some (column (split (CHR '','') row) 1))"
      then obtain pre r post where nu: "\<not> updated ?sc" and u: "updated (scanRows env np rows ?sc)"
        and d: "filter (\<lambda>row. \<not> blankRow row) rows = pre @ r # post"
        and h: "rowHas np ''Sent'' r"
        and n: "newRows (scanRows env np rows ?sc) = newRows ?sc @ pre @ updatedRow env r # post"
        and c: "customerName (scanRows env np rows ?sc) = Some (column (split (CHR '','') r) 1)"
        by blast
      have "filter (\<lambda>row. \<not> blankRow row) (row # rows) = (row # pre) @ r # post \<and>
          rowHas np ''Sent'' r \<and>
          newRows (scanRows env np (row # rows) sc) =
            newRows sc @ (row # pre) @ updatedRow env r # post \<and>
          customerName (scanRows env np (row # rows) sc) = Some (column (split (CHR '','') r) 1)"
        using copy d h n c by simp
      then have "\<exists>pre r post.
         filter (\<lambda>row. \<not> blankRow row) (row # rows) = pre @ r # post \<and>
         rowHas np ''Sent'' r \<and>
         newRows (scanRows env np (row # rows) sc) = newRows sc @ pre @ updatedRow env r # post \<and>
         customerName (scanRows env np (row # rows) sc) = Some (column (split (CHR '','') r) 1)"
        by blast
      moreover have "\<not> updated sc" using nu by simp
      moreover have "updated (scanRows env np (row # rows) sc)" using u copy by simp
      ultimately show ?thesis by blast
    qed
  qed
qed

lemma scanRows_updates:
  assumes "\<not> alreadySeen sc"
    and "\<forall>row\<in>set rows. \<not> blankRow row \<longrightarrow> \<not> rowHas np ''Seen'' row"
    and "\<exists>row\<in>set rows. \<not> blankRow row \<and> rowHas np ''Sent'' row"
  shows "updated (scanRows env np rows sc)"
  using assms
proof (induction rows arbitrary: sc)
  case Nil
  then show ?case by simp
next
  case (Cons row rows)
  show ?case
  proof (cases rule: scanRow_cases [of row env np sc])
    case blank
    then show ?thesis using Cons.IH [of sc] Cons.prems by auto
  next
    case rewrite
    let ?sc = "sc\<lparr>newRows := newRows sc @ [updatedRow env row],
            customerName := Some (column (split (CHR '','') row) 1), updated := True\<rparr>"
    have "updated ?sc" by simp
    then show ?thesis using rewrite scanRows_after_update [of ?sc env np rows] by simp
  next
    case copy
    let ?sc = "sc\<lparr>newRows := newRows sc @ [row],
            alreadySeen := (alreadySeen sc \<or> rowHas np ''Seen'' row)\<rparr>"
    show ?thesis
    proof (cases "updated sc")
      case True
      then have "updated ?sc" by simp
      then show ?thesis using copy scanRows_after_update [of ?sc env np rows] by simp
    next
      case False
      then have "\<not> rowHas np ''Sent'' row" using copy(2) Cons.prems(1) by simp
      then have ex: "\<exists>row\<in>set rows. \<not> blankRow row \<and> rowHas np ''Sent'' row"
        using Cons.prems(3) by auto
      have ns: "\<not> alreadySeen ?sc" using Cons.prems(1,2) copy(1) by simp
      have "\<forall>row\<in>set rows. \<not> blankRow row \<longrightarrow> \<not> rowHas np ''Seen'' row"
        using Cons.prems(2) by simp
      then show ?thesis using Cons.IH [OF ns _ ex] copy by simp
    qed
  qed
qed

subsection \<open>Facts about the rewritten log file\<close>

lemma split_elem_subset: "r \<in> set (split c s) \<Longrightarrow> set r \<subseteq> set s"
proof (induction s arbitrary: r)
  case Nil
  then show ?case by simp
next
  case (Cons x xs)
  obtain q qs where qs: "split c xs = q # qs"
    using split_not_Nil [of c xs] by (cases "split c xs") auto
  show ?case
  proof (cases "x = c")
    case True
    with Cons.prems have "r = [] \<or> r \<in> set (split c xs)" by auto
    then show ?thesis using Cons.IH by auto
  next
    case False
    with Cons.prems qs have "r = x # q \<or> r \<in> set qs" by auto
    moreover have "set q \<subseteq> set xs" using Cons.IH [of q] qs by simp
    moreover have "r \<in> set qs \<Longrightarrow> set r \<subseteq> set xs" using Cons.IH [of r] qs by simp
    ultimately show ?thesis by auto
  qed
qed

lemma column_subset: "set (column (split c row) i) \<subseteq> set row"
proof (cases "i < length (split c row)")
  case True
  then have "split c row ! i \<in> set (split c row)" by simp
  then show ?thesis using True split_elem_subset [of "split c row ! i" c row] by (simp add: column_def)
next
  case False
  then show ?thesis by (simp add: column_def)
qed

lemma timeToSeeValue_no_LF: "CHR 0x0A \<notin> set (timeToSeeValue env ts)"
  by (auto simp: timeToSeeValue_def showInt_no_LF split: option.splits)

lemma updatedRow_no_LF:
  assumes "CHR 0x0A \<notin> set row"
  shows "CHR 0x0A \<notin> set (updatedRow env row)"
proof -
  have c: "CHR 0x0A \<notin> set (column (split (CHR '','') row) i)" for i
    using assms column_subset [of "CHR '',''" row i] by auto
  show ?thesis
    by (simp add: updatedRow_def Let_def c formatTimestamp_no_LF timeToSeeValue_no_LF)
qed

lemma in_dropWhile: "x \<in> set xs \<Longrightarrow> \<not> P x \<Longrightarrow> x \<in> set (dropWhile P xs)"
proof -
  assume a: "x \<in> set xs" and b: "\<not> P x"
  have "set xs = set (takeWhile P xs) \<union> set (dropWhile P xs)"
    by (metis set_append takeWhile_dropWhile_id)
  moreover have "x \<notin> set (takeWhile P xs)" using b by (auto dest: set_takeWhileD)
  ultimately show ?thesis using a by auto
qed

lemma in_set_not_Nil: "x \<in> set xs \<Longrightarrow> xs \<noteq> []"
  by (cases xs) simp_all

lemma trim_not_empty:
  assumes "c \<in> set s" and "\<not> isSpace c"
  shows "trim s \<noteq> []"
proof -
  have "c \<in> set (dropWhile isSpace s)" using assms by (rule in_dropWhile)
  then have "c \<in> set (rev (dropWhile isSpace s))" by simp
  then have "c \<in> set (dropWhile isSpace (rev (dropWhile isSpace s)))"
    using assms(2) by (rule in_dropWhile)
  then have "dropWhile isSpace (rev (dropWhile isSpace s)) \<noteq> []"
    by (rule in_set_not_Nil)
  then show ?thesis by (simp add: trim_def)
qed

lemma updatedRow_not_blank: "\<not> blankRow (updatedRow env row)"
proof -
  have "CHR ''S'' \<in> set (updatedRow env row)" by (simp add: updatedRow_def Let_def)
  moreover have "\<not> isSpace (CHR ''S'')" by (simp add: isSpace_def)
  ultimately have "trim (updatedRow env row) \<noteq> []" by (rule trim_not_empty)
  moreover have "updatedRow env row \<noteq> []" using \<open>CHR ''S'' \<in> set (updatedRow env row)\<close> by auto
  ultimately show ?thesis by (simp add: blankRow_def)
qed

lemma dataRows_facts:
  assumes "row \<in> set (dataRows logData)"
  shows "CHR 0x0A \<notin> set row" and "\<not> blankRow row"
proof -
  have "row \<in> set (tl (split (CHR 0x0A) logData))" and nb: "\<not> blankRow row"
    using assms by (auto simp: dataRows_def)
  then have "row \<in> set (split (CHR 0x0A) logData)"
    using split_not_Nil [of "CHR 0x0A" logData] by (cases "split (CHR 0x0A) logData") auto
  then show "CHR 0x0A \<notin> set row" by (rule split_rows_no_sep)
  show "\<not> blankRow row" by (rule nb)
qed

lemma header_no_LF: "CHR 0x0A \<notin> set (hd (split (CHR 0x0A) logData))"
  using split_rows_no_sep [of "hd (split (CHR 0x0A) logData)" "CHR 0x0A" logData] split_not_Nil
  by simp

lemma rewritten_reads_back:
  assumes "dataRows logData = pre @ row # post"
  shows "split (CHR 0x0A)
           (join [CHR 0x0A] (hd (split (CHR 0x0A) logData) # pre @ updatedRow env row # post) @ [CHR 0x0A])
         = (hd (split (CHR 0x0A) logData) # pre @ updatedRow env row # post) @ [[]]"
    and "dataRows
           (join [CHR 0x0A] (hd (split (CHR 0x0A) logData) # pre @ updatedRow env row # post) @ [CHR 0x0A])
         = pre @ updatedRow env row # post"
proof -
  let ?h = "hd (split (CHR 0x0A) logData)"
  let ?rows = "?h # pre @ updatedRow env row # post"
  have mem: "r \<in> set (dataRows logData)" if "r \<in> set pre \<or> r = row \<or> r \<in> set post" for r
    using that assms by auto
  have u: "CHR 0x0A \<notin> set (updatedRow env row)"
    using dataRows_facts(1) [OF mem [of row]] by (simp add: updatedRow_no_LF)
  have "\<forall>r\<in>set ?rows. CHR 0x0A \<notin> set r"
    using header_no_LF [of logData] u dataRows_facts(1) mem by auto
  then show s: "split (CHR 0x0A) (join [CHR 0x0A] ?rows @ [CHR 0x0A]) = ?rows @ [[]]"
    by (intro split_join_terminated) simp_all
  have "\<not> blankRow r" if "r \<in> set pre \<or> r \<in> set post" for r
    using dataRows_facts(2) [of r logData] mem [of r] that by blast
  then have nb: "\<forall>r\<in>set (pre @ updatedRow env row # post). \<not> blankRow r"
    using updatedRow_not_blank by auto
  have "dataRows (join [CHR 0x0A] ?rows @ [CHR 0x0A]) =
        filter (\<lambda>r. \<not> blankRow r) ((pre @ updatedRow env row # post) @ [[]])"
    unfolding dataRows_def s by simp
  also have "\<dots> = filter (\<lambda>r. \<not> blankRow r) (pre @ updatedRow env row # post)"
    by (simp add: blankRow_def)
  also have "\<dots> = pre @ updatedRow env row # post"
    using nb by (intro filter_True) auto
  finally show "dataRows (join [CHR 0x0A] ?rows @ [CHR 0x0A]) = pre @ updatedRow env row # post" .
qed

subsection \<open>Facts about \<^verbatim>\<open>updateLogWithSeenStatus\<close>\<close>

lemma set_dataRows:
  "set (dataRows logData) = {row \<in> set (tl (split (CHR 0x0A) logData)). \<not> blankRow row}"
  by (auto simp: dataRows_def)

lemma scanLog_frame:
  "(\<not> updated (scanLog env np logData b)) \<or>
   (\<exists>pre row post.
       dataRows logData = pre @ row # post \<and> rowHas np ''Sent'' row \<and>
       newRows (scanLog env np logData b) =
         hd (split (CHR 0x0A) logData) # pre @ updatedRow env row # post \<and>
       customerName (scanLog env np logData b) = Some (column (split (CHR '','') row) 1))"
  using scanRows_frame [of env np "tl (split (CHR 0x0A) logData)"
      "\<lparr>newRows = [hd (split (CHR 0x0A) logData)], customerName = None, updated = False,
        alreadySeen = b\<rparr>"]
  by (auto simp: scanLog_def Let_def dataRows_def)

lemma scanLog_seen: "\<not> updated (scanLog env np logData True)"
  using scanRows_when_seen [of "\<lparr>newRows = [hd (split (CHR 0x0A) logData)], customerName = None,
      updated = False, alreadySeen = True\<rparr>" env np "tl (split (CHR 0x0A) logData)"]
  by (simp add: scanLog_def Let_def)

lemma scanLog_clock:
  "updated (scanLog env np logData b) = updated (scanLog env' np logData b)"
  using scanRows_updated_clock [of
      "\<lparr>newRows = [hd (split (CHR 0x0A) logData)], customerName = None, updated = False,
        alreadySeen = b\<rparr>"
      "\<lparr>newRows = [hd (split (CHR 0x0A) logData)], customerName = None, updated = False,
        alreadySeen = b\<rparr>" env np "tl (split (CHR 0x0A) logData)" env']
  by (simp add: scanLog_def Let_def)

lemma scanLog_updates:
  assumes "\<forall>row\<in>set (dataRows logData). \<not> rowHas np ''Seen'' row"
    and "\<exists>row\<in>set (dataRows logData). rowHas np ''Sent'' row"
  shows "updated (scanLog env np logData False)"
    and "\<not> alreadySeen (scanLog env np logData False)"
proof -
  let ?sc = "\<lparr>newRows = [hd (split (CHR 0x0A) logData)], customerName = None, updated = False,
        alreadySeen = False\<rparr>"
  have a: "\<not> alreadySeen ?sc" by simp
  have b: "\<forall>row\<in>set (tl (split (CHR 0x0A) logData)). \<not> blankRow row \<longrightarrow> \<not> rowHas np ''Seen'' row"
    using assms(1) by (simp add: set_dataRows)
  have c: "\<exists>row\<in>set (tl (split (CHR 0x0A) logData)). \<not> blankRow row \<and> rowHas np ''Sent'' row"
    using assms(2) by (auto simp: set_dataRows)
  show "updated (scanLog env np logData False)"
    using scanRows_updates [OF a b c, of env] by (simp add: scanLog_def Let_def)
  show "\<not> alreadySeen (scanLog env np logData False)"
    using b by (auto simp add: scanLog_def Let_def scanRows_alreadySeen)
qed

lemma seenTry_idle:
  assumes "mainLogFile s = None \<or> readFileFails env \<or>
           (\<exists>d. mainLogFile s = Some d \<and> \<not> updated (scanLog env np d (np \<in> seenNotifications s)))"
  shows "seenTry env ph np s = \<lparr>after = s, returned = None, fileWrites = 0, notified = None\<rparr>"
  using assms by (auto simp: seenTry_def Let_def split: option.splits)

lemma seenTry_rewrites:
  assumes "mainLogFile s = Some d" and "\<not> readFileFails env"
    and "updated (scanLog env np d (np \<in> seenNotifications s))"
  shows "seenTry env ph np s =
     (if writeFileFails env then
        \<lparr>after = s\<lparr>seenNotifications := insert np (seenNotifications s)\<rparr>,
         returned = None, fileWrites = 0, notified = None\<rparr>
      else
        \<lparr>after = s\<lparr>seenNotifications := insert np (seenNotifications s),
                   mainLogFile := Some (join [CHR 0x0A]
                     (newRows (scanLog env np d (np \<in> seenNotifications s))) @ [CHR 0x0A])\<rparr>,
         returned = None, fileWrites = 1,
         notified =
           (case customerName (scanLog env np d (np \<in> seenNotifications s)) of
              None \<Rightarrow> None
            | Some nm \<Rightarrow>
                if nm \<noteq> [] \<and> \<not> alreadySeen (scanLog env np d (np \<in> seenNotifications s)) \<and>
                   phoneInLeads env
                then Some (nm, ph) else None)\<rparr>)"
  using assms by (simp add: seenTry_def Let_def)

lemma update_busy:
  assumes "normalizePhone_v1 ph \<in> processingSeenStatus s"
  shows "updateLogWithSeenStatus env ph s =
         Some \<lparr>after = s, returned = None, fileWrites = 0, notified = None\<rparr>"
  using assms by (simp add: updateLogWithSeenStatus_def)

lemma update_runs:
  assumes "normalizePhone_v1 ph \<notin> processingSeenStatus s" and "\<not> mainLogLock s"
  shows "updateLogWithSeenStatus env ph s =
     Some ((seenTry env ph (normalizePhone_v1 ph)
              (s\<lparr>mainLogLock := True,
                 processingSeenStatus := insert (normalizePhone_v1 ph) (processingSeenStatus s)\<rparr>))
           \<lparr>after := (after (seenTry env ph (normalizePhone_v1 ph)
              (s\<lparr>mainLogLock := True,
                 processingSeenStatus := insert (normalizePhone_v1 ph) (processingSeenStatus s)\<rparr>)))
              \<lparr>mainLogLock := False,
               processingSeenStatus := processingSeenStatus (after (seenTry env ph (normalizePhone_v1 ph)
              (s\<lparr>mainLogLock := True,
                 processingSeenStatus := insert (normalizePhone_v1 ph) (processingSeenStatus s)\<rparr>)))
                 - {normalizePhone_v1 ph}\<rparr>\<rparr>)"
  using assms by (simp add: updateLogWithSeenStatus_def Let_def)

text \<open>What a call that gets past both guards leaves, in the three ways the
  \<^verbatim>\<open>try\<close> block can go.\<close>

lemma update_idle:
  assumes "normalizePhone_v1 ph \<notin> processingSeenStatus s" and "\<not> mainLogLock s"
    and "mainLogFile s = None \<or> readFileFails env \<or>
         (\<exists>d. mainLogFile s = Some d \<and>
              \<not> updated (scanLog env (normalizePhone_v1 ph) d (normalizePhone_v1 ph \<in> seenNotifications s)))"
  shows "updateLogWithSeenStatus env ph s =
         Some \<lparr>after = s, returned = None, fileWrites = 0, notified = None\<rparr>"
proof -
  let ?np = "normalizePhone_v1 ph"
  let ?s0 = "s\<lparr>mainLogLock := True, processingSeenStatus := insert ?np (processingSeenStatus s)\<rparr>"
  have "seenTry env ph ?np ?s0 = \<lparr>after = ?s0, returned = None, fileWrites = 0, notified = None\<rparr>"
    using assms(3) by (intro seenTry_idle) simp
  moreover have "?s0\<lparr>mainLogLock := False,
      processingSeenStatus := processingSeenStatus ?s0 - {?np}\<rparr> = s"
    using assms(1,2) by simp
  ultimately show ?thesis
    using update_runs [OF assms(1,2), of env] by simp
qed

lemma update_marks:
  assumes "normalizePhone_v1 ph \<notin> processingSeenStatus s" and "\<not> mainLogLock s"
    and "mainLogFile s = Some d" and "\<not> readFileFails env"
    and "updated (scanLog env (normalizePhone_v1 ph) d (normalizePhone_v1 ph \<in> seenNotifications s))"
    and "writeFileFails env"
  shows "updateLogWithSeenStatus env ph s =
         Some \<lparr>after = s\<lparr>seenNotifications := insert (normalizePhone_v1 ph) (seenNotifications s)\<rparr>,
               returned = None, fileWrites = 0, notified = None\<rparr>"
proof -
  let ?np = "normalizePhone_v1 ph"
  let ?s0 = "s\<lparr>mainLogLock := True, processingSeenStatus := insert ?np (processingSeenStatus s)\<rparr>"
  have "seenTry env ph ?np ?s0 =
      \<lparr>after = ?s0\<lparr>seenNotifications := insert ?np (seenNotifications ?s0)\<rparr>,
       returned = None, fileWrites = 0, notified = None\<rparr>"
    using assms(3-6) seenTry_rewrites [of ?s0 d env ?np ph]
    by (simp cong: option.case_cong if_cong)
  moreover have "?s0\<lparr>seenNotifications := insert ?np (seenNotifications ?s0),
      mainLogLock := False, processingSeenStatus := processingSeenStatus ?s0 - {?np}\<rparr>
      = s\<lparr>seenNotifications := insert ?np (seenNotifications s)\<rparr>"
    using assms(1,2) by simp
  ultimately show ?thesis
    using update_runs [OF assms(1,2), of env] by simp
qed

lemma update_writes:
  assumes "normalizePhone_v1 ph \<notin> processingSeenStatus s" and "\<not> mainLogLock s"
    and "mainLogFile s = Some d" and "\<not> readFileFails env"
    and "updated (scanLog env (normalizePhone_v1 ph) d (normalizePhone_v1 ph \<in> seenNotifications s))"
    and "\<not> writeFileFails env"
  shows "updateLogWithSeenStatus env ph s =
         Some \<lparr>after = s\<lparr>seenNotifications := insert (normalizePhone_v1 ph) (seenNotifications s),
                   mainLogFile := Some (join [CHR 0x0A]
                     (newRows (scanLog env (normalizePhone_v1 ph) d
                        (normalizePhone_v1 ph \<in> seenNotifications s))) @ [CHR 0x0A])\<rparr>,
               returned = None, fileWrites = 1,
               notified =
                 (case customerName (scanLog env (normalizePhone_v1 ph) d
                         (normalizePhone_v1 ph \<in> seenNotifications s)) of
                    None \<Rightarrow> None
                  | Some nm \<Rightarrow>
                      if nm \<noteq> [] \<and>
                         \<not> alreadySeen (scanLog env (normalizePhone_v1 ph) d
                              (normalizePhone_v1 ph \<in> seenNotifications s)) \<and>
                         phoneInLeads env
                      then Some (nm, ph) else None)\<rparr>"
proof -
  let ?np = "normalizePhone_v1 ph"
  let ?s0 = "s\<lparr>mainLogLock := True, processingSeenStatus := insert ?np (processingSeenStatus s)\<rparr>"
  let ?sc = "scanLog env ?np d (?np \<in> seenNotifications s)"
  have "seenTry env ph ?np ?s0 =
      \<lparr>after = ?s0\<lparr>seenNotifications := insert ?np (seenNotifications ?s0),
                   mainLogFile := Some (join [CHR 0x0A] (newRows ?sc) @ [CHR 0x0A])\<rparr>,
       returned = None, fileWrites = 1,
       notified = (case customerName ?sc of None \<Rightarrow> None
                  | Some nm \<Rightarrow> if nm \<noteq> [] \<and> \<not> alreadySeen ?sc \<and> phoneInLeads env
                      then Some (nm, ph) else None)\<rparr>"
    using assms(3-6) seenTry_rewrites [of ?s0 d env ?np ph]
    by (simp cong: option.case_cong if_cong)
  moreover have "?s0\<lparr>seenNotifications := insert ?np (seenNotifications ?s0),
      mainLogFile := Some (join [CHR 0x0A] (newRows ?sc) @ [CHR 0x0A]),
      mainLogLock := False, processingSeenStatus := processingSeenStatus ?s0 - {?np}\<rparr>
      = s\<lparr>seenNotifications := insert ?np (seenNotifications s),
           mainLogFile := Some (join [CHR 0x0A] (newRows ?sc) @ [CHR 0x0A])\<rparr>"
    using assms(1,2) by simp
  ultimately show ?thesis
    using update_runs [OF assms(1,2), of env] by (simp cong: option.case_cong)
qed

text \<open>
  Claim C10. A call that is not held up by the file lock either leaves the log file
  as it was, or rewrites it so that the header row is the header row it had and the
  rows after it are the rows the loop visited, in their order, with one row of the
  phone whose status was Sent replaced by its rewritten form; every other row, of
  this phone or of another, has the content it had.
\<close>

theorem seen_update_frame:
  assumes "\<not> mainLogLock s"
  shows "\<exists>r. updateLogWithSeenStatus env ph s = Some r \<and>
     (mainLogFile (after r) = mainLogFile s \<or>
      (\<exists>logData updatedData pre row post.
          mainLogFile s = Some logData \<and> mainLogFile (after r) = Some updatedData \<and>
          dataRows logData = pre @ row # post \<and>
          rowHas (normalizePhone_v1 ph) ''Sent'' row \<and>
          hd (split (CHR 0x0A) updatedData) = hd (split (CHR 0x0A) logData) \<and>
          dataRows updatedData = pre @ updatedRow env row # post))"
proof -
  let ?np = "normalizePhone_v1 ph"
  show ?thesis
  proof (cases "?np \<in> processingSeenStatus s")
    case True
    then show ?thesis by (simp add: update_busy)
  next
    case free: False
    show ?thesis
    proof (cases "mainLogFile s = None \<or> readFileFails env \<or>
         (\<exists>d. mainLogFile s = Some d \<and> \<not> updated (scanLog env ?np d (?np \<in> seenNotifications s)))")
      case True
      then show ?thesis using update_idle [OF free assms, of env] by simp
    next
      case False
      then obtain d where d: "mainLogFile s = Some d" and rd: "\<not> readFileFails env"
        and up: "updated (scanLog env ?np d (?np \<in> seenNotifications s))"
        by auto
      show ?thesis
      proof (cases "writeFileFails env")
        case True
        then show ?thesis using update_marks [OF free assms d rd up] by simp
      next
        case False
        let ?sc = "scanLog env ?np d (?np \<in> seenNotifications s)"
        obtain pre row post where dr: "dataRows d = pre @ row # post"
          and rh: "rowHas ?np ''Sent'' row"
          and nr: "newRows ?sc = hd (split (CHR 0x0A) d) # pre @ updatedRow env row # post"
          using scanLog_frame [of env ?np d "?np \<in> seenNotifications s"] up by blast
        let ?new = "join [CHR 0x0A] (hd (split (CHR 0x0A) d) # pre @ updatedRow env row # post) @ [CHR 0x0A]"
        have h: "hd (split (CHR 0x0A) ?new) = hd (split (CHR 0x0A) d)"
          using rewritten_reads_back(1) [OF dr, of env] by simp
        have r: "dataRows ?new = pre @ updatedRow env row # post"
          using rewritten_reads_back(2) [OF dr, of env] .
        obtain res where res: "updateLogWithSeenStatus env ph s = Some res"
          and f: "mainLogFile (after res) = Some ?new"
          using update_writes [OF free assms d rd up False] nr by simp
        have "mainLogFile s = Some d \<and> mainLogFile (after res) = Some ?new \<and>
          dataRows d = pre @ row # post \<and> rowHas ?np ''Sent'' row \<and>
          hd (split (CHR 0x0A) ?new) = hd (split (CHR 0x0A) d) \<and>
          dataRows ?new = pre @ updatedRow env row # post"
          using d f dr rh h r by simp
        then show ?thesis using res by blast
      qed
    qed
  qed
qed

text \<open>
  Two calls for the same phone, one after the other, the first of which could read
  the log file: the second call leaves the log file as the first call left it,
  writes nothing, returns nothing and notifies nobody; the first call writes the
  file at most once.
\<close>

lemma second_call_idle:
  assumes "\<not> mainLogLock s" and "\<not> readFileFails env1"
  shows "\<exists>r1 r2. updateLogWithSeenStatus env1 ph s = Some r1 \<and>
           updateLogWithSeenStatus env2 ph (after r1) = Some r2 \<and>
           mainLogFile (after r2) = mainLogFile (after r1) \<and>
           fileWrites r2 = 0 \<and> returned r2 = None \<and> notified r2 = None \<and>
           fileWrites r1 \<le> 1 \<and>
           (mainLogFile (after r1) \<noteq> mainLogFile s \<longrightarrow> fileWrites r1 + fileWrites r2 = 1)"
proof -
  let ?np = "normalizePhone_v1 ph"
  let ?idle = "\<lambda>t. \<lparr>after = t, returned = None, fileWrites = 0, notified = None\<rparr>"
  show ?thesis
  proof (cases "?np \<in> processingSeenStatus s")
    case True
    then have "updateLogWithSeenStatus env1 ph s = Some (?idle s)"
      and "updateLogWithSeenStatus env2 ph (after (?idle s)) = Some (?idle s)"
      by (simp_all add: update_busy)
    then show ?thesis by simp
  next
    case free: False
    show ?thesis
    proof (cases "mainLogFile s = None \<or>
         (\<exists>d. mainLogFile s = Some d \<and> \<not> updated (scanLog env1 ?np d (?np \<in> seenNotifications s)))")
      case True
      then have 1: "updateLogWithSeenStatus env1 ph s = Some (?idle s)"
        using update_idle [OF free assms(1), of env1] by blast
      have "mainLogFile s = None \<or> readFileFails env2 \<or>
         (\<exists>d. mainLogFile s = Some d \<and> \<not> updated (scanLog env2 ?np d (?np \<in> seenNotifications s)))"
        using True scanLog_clock [of env1 ?np _ "?np \<in> seenNotifications s" env2] by auto
      then have 2: "updateLogWithSeenStatus env2 ph (after (?idle s)) = Some (?idle s)"
        using update_idle [OF free assms(1), of env2] by simp
      show ?thesis using 1 2 by simp
    next
      case False
      then obtain d where d: "mainLogFile s = Some d"
        and up: "updated (scanLog env1 ?np d (?np \<in> seenNotifications s))"
        by auto
      obtain r1 where 1: "updateLogWithSeenStatus env1 ph s = Some r1"
        and w1: "fileWrites r1 \<le> 1"
        and c1: "mainLogFile (after r1) \<noteq> mainLogFile s \<longrightarrow> fileWrites r1 = 1"
        and m1: "?np \<in> seenNotifications (after r1)"
        and l1: "\<not> mainLogLock (after r1)"
        and p1: "?np \<notin> processingSeenStatus (after r1)"
      proof (cases "writeFileFails env1")
        case True
        show ?thesis
          using that update_marks [OF free assms(1) d assms(2) up True] free assms(1) by simp
      next
        case False
        show ?thesis
          using that update_writes [OF free assms(1) d assms(2) up False] free assms(1) by simp
      qed
      have "mainLogFile (after r1) = None \<or> readFileFails env2 \<or>
         (\<exists>d'. mainLogFile (after r1) = Some d' \<and>
            \<not> updated (scanLog env2 ?np d' (?np \<in> seenNotifications (after r1))))"
        using m1 scanLog_seen [of env2 ?np] by (cases "mainLogFile (after r1)") auto
      then have 2: "updateLogWithSeenStatus env2 ph (after r1) = Some (?idle (after r1))"
        using update_idle [OF p1 l1, of env2] by blast
      show ?thesis using 1 2 w1 c1 by simp
    qed
  qed
qed

lemma comma_not_digit: "\<not> isDigit (CHR '','')"
  by (simp add: isDigit_def)

lemma showInt_no_comma: "CHR '','' \<notin> set (showInt n)"
  using decimal_digits comma_not_digit by (auto simp: showInt_def)

lemma padStart2_no_comma: "CHR '','' \<notin> set s \<Longrightarrow> CHR '','' \<notin> set (padStart2 s)"
  by (auto simp: padStart2_def)

lemma formatTimestamp_no_comma: "CHR '','' \<notin> set (formatTimestamp d)"
  by (simp add: formatTimestamp_def showInt_no_comma padStart2_no_comma)

lemma timeToSeeValue_no_comma: "CHR '','' \<notin> set (timeToSeeValue env ts)"
  by (auto simp: timeToSeeValue_def showInt_no_comma split: option.splits)

lemma column_no_comma: "CHR '','' \<notin> set (column (split (CHR '','') row) i)"
proof (cases "i < length (split (CHR '','') row)")
  case True
  then have "split (CHR '','') row ! i \<in> set (split (CHR '','') row)" by simp
  then have "CHR '','' \<notin> set (split (CHR '','') row ! i)" by (rule split_rows_no_sep)
  then show ?thesis using True by (simp add: column_def)
next
  case False
  then show ?thesis by (simp add: column_def)
qed

lemma updatedRow_columns:
  "split (CHR '','') (updatedRow env row) =
     [column (split (CHR '','') row) 0, column (split (CHR '','') row) 1,
      column (split (CHR '','') row) 2, ''Seen'', formatTimestamp (now env),
      timeToSeeValue env (column (split (CHR '','') row) 2)] @
     (if length (split (CHR '','') row) \<ge> 7 then [formatTimestamp (now env)] else [])"
proof -
  let ?c = "\<lambda>i. column (split (CHR '','') row) i"
  let ?six = "[?c 0, ?c 1, ?c 2, ''Seen'', formatTimestamp (now env), timeToSeeValue env (?c 2)]"
  let ?fields = "?six @ (if length (split (CHR '','') row) \<ge> 7 then [formatTimestamp (now env)] else [])"
  have j: "updatedRow env row = join '','' ?fields"
    by (simp add: updatedRow_def Let_def)
  have "\<forall>r\<in>set ?fields. CHR '','' \<notin> set r"
    by (simp add: column_no_comma formatTimestamp_no_comma timeToSeeValue_no_comma)
  moreover have "?fields \<noteq> []" by simp
  ultimately have "split (CHR '','') (join [CHR '',''] ?fields) = ?fields"
    by (intro split_join)
  then show ?thesis using j by simp
qed

lemma rewritten_differs:
  assumes "dataRows logData = pre @ row # post"
    and "rowHas np ''Sent'' row"
  shows "join [CHR 0x0A] (hd (split (CHR 0x0A) logData) # pre @ updatedRow env row # post) @ [CHR 0x0A]
         \<noteq> logData"
proof
  let ?new = "join [CHR 0x0A] (hd (split (CHR 0x0A) logData) # pre @ updatedRow env row # post) @ [CHR 0x0A]"
  assume e: "?new = logData"
  have "dataRows ?new = pre @ updatedRow env row # post"
    using rewritten_reads_back(2) [OF assms(1), of env] .
  then have same: "updatedRow env row = row" using e assms(1) by simp
  have "\<exists>a b c rest. split (CHR '','') (updatedRow env row) = a # b # c # ''Seen'' # rest"
    using updatedRow_columns [of env row] by simp
  then obtain a b c rest where "split (CHR '','') row = a # b # c # ''Seen'' # rest"
    unfolding same by blast
  then have "column (split (CHR '','') row) 3 = ''Seen''"
    by (simp add: column_def)
  then show False using assms(2) by (simp add: rowHas_def)
qed

text \<open>
  Claim C5, as amended. Two calls for the same phone, one after the other, the first
  of which is not held up by the file lock and can read the log file. The second
  call leaves the log file as the first call left it, writes nothing, returns
  nothing and notifies nobody, and the first call writes the file at most once.
  When the phone has a Sent row in the log, no Seen row and no notification on
  record, is not being processed, and the write succeeds, the first call writes the
  file and changes it: the two calls together modify the log exactly once. When the
  phone has no Sent row in the log, neither call writes the file.
\<close>

theorem seen_transition_idempotent:
  assumes "\<not> mainLogLock s" and "\<not> readFileFails env1"
  shows "\<exists>r1 r2. updateLogWithSeenStatus env1 ph s = Some r1 \<and>
           updateLogWithSeenStatus env2 ph (after r1) = Some r2 \<and>
           mainLogFile (after r2) = mainLogFile (after r1) \<and>
           fileWrites r2 = 0 \<and> returned r2 = None \<and> notified r2 = None \<and>
           fileWrites r1 \<le> 1 \<and>
           (mainLogFile (after r1) \<noteq> mainLogFile s \<longrightarrow> fileWrites r1 + fileWrites r2 = 1) \<and>
           (normalizePhone_v1 ph \<notin> processingSeenStatus s \<and>
            normalizePhone_v1 ph \<notin> seenNotifications s \<and>
            \<not> writeFileFails env1 \<and>
            (\<exists>logData. mainLogFile s = Some logData \<and>
               (\<exists>row\<in>set (dataRows logData). rowHas (normalizePhone_v1 ph) ''Sent'' row) \<and>
               (\<forall>row\<in>set (dataRows logData). \<not> rowHas (normalizePhone_v1 ph) ''Seen'' row))
            \<longrightarrow>
            fileWrites r1 = 1 \<and> fileWrites r1 + fileWrites r2 = 1 \<and>
            mainLogFile (after r1) \<noteq> mainLogFile s) \<and>
           ((\<forall>logData. mainLogFile s = Some logData \<longrightarrow>
               (\<forall>row\<in>set (dataRows logData). \<not> rowHas (normalizePhone_v1 ph) ''Sent'' row))
            \<longrightarrow>
            fileWrites r1 = 0 \<and> fileWrites r1 + fileWrites r2 = 0 \<and>
            mainLogFile (after r1) = mainLogFile s)"
proof -
  let ?np = "normalizePhone_v1 ph"
  obtain r1 r2 where 1: "updateLogWithSeenStatus env1 ph s = Some r1"
    and 2: "updateLogWithSeenStatus env2 ph (after r1) = Some r2"
    and rest: "mainLogFile (after r2) = mainLogFile (after r1)"
      "fileWrites r2 = 0" "returned r2 = None" "notified r2 = None" "fileWrites r1 \<le> 1"
      "mainLogFile (after r1) \<noteq> mainLogFile s \<longrightarrow> fileWrites r1 + fileWrites r2 = 1"
    using second_call_idle [OF assms, of ph env2] by blast
  have once: "fileWrites r1 = 1 \<and> fileWrites r1 + fileWrites r2 = 1 \<and>
              mainLogFile (after r1) \<noteq> mainLogFile s"
    if h: "?np \<notin> processingSeenStatus s \<and> ?np \<notin> seenNotifications s \<and> \<not> writeFileFails env1 \<and>
           (\<exists>logData. mainLogFile s = Some logData \<and>
              (\<exists>row\<in>set (dataRows logData). rowHas ?np ''Sent'' row) \<and>
              (\<forall>row\<in>set (dataRows logData). \<not> rowHas ?np ''Seen'' row))"
  proof -
    obtain logData where d: "mainLogFile s = Some logData"
      and sent: "\<exists>row\<in>set (dataRows logData). rowHas ?np ''Sent'' row"
      and seen: "\<forall>row\<in>set (dataRows logData). \<not> rowHas ?np ''Seen'' row"
      using h by blast
    have free: "?np \<notin> processingSeenStatus s" and nn: "?np \<notin> seenNotifications s"
      and wr: "\<not> writeFileFails env1"
      using h by simp_all
    let ?sc = "scanLog env1 ?np logData (?np \<in> seenNotifications s)"
    have sc: "?sc = scanLog env1 ?np logData False" using nn by simp
    have up: "updated ?sc"
      unfolding sc using scanLog_updates(1) [OF seen sent, of env1] .
    obtain pre row post where dr: "dataRows logData = pre @ row # post"
      and rh: "rowHas ?np ''Sent'' row"
      and nr: "newRows ?sc = hd (split (CHR 0x0A) logData) # pre @ updatedRow env1 row # post"
      using scanLog_frame [of env1 ?np logData "?np \<in> seenNotifications s"] up by blast
    have w: "fileWrites r1 = 1"
      and f: "mainLogFile (after r1) =
                Some (join [CHR 0x0A]
                  (hd (split (CHR 0x0A) logData) # pre @ updatedRow env1 row # post) @ [CHR 0x0A])"
      using update_writes [OF free assms(1) d assms(2) up wr] 1 nr by simp_all
    have "mainLogFile (after r1) \<noteq> mainLogFile s"
      using f d rewritten_differs [OF dr rh, of env1] by simp
    then show ?thesis using w rest(2) by simp
  qed
  have never: "fileWrites r1 = 0 \<and> fileWrites r1 + fileWrites r2 = 0 \<and>
               mainLogFile (after r1) = mainLogFile s"
    if h: "\<forall>logData. mainLogFile s = Some logData \<longrightarrow>
             (\<forall>row\<in>set (dataRows logData). \<not> rowHas ?np ''Sent'' row)"
  proof -
    have idle: "updateLogWithSeenStatus env1 ph s =
                  Some \<lparr>after = s, returned = None, fileWrites = 0, notified = None\<rparr>"
    proof (cases "?np \<in> processingSeenStatus s")
      case True
      then show ?thesis by (rule update_busy)
    next
      case free: False
      have "mainLogFile s = None \<or> readFileFails env1 \<or>
            (\<exists>d. mainLogFile s = Some d \<and>
                 \<not> updated (scanLog env1 ?np d (?np \<in> seenNotifications s)))"
      proof (cases "mainLogFile s")
        case None
        then show ?thesis by simp
      next
        case (Some d)
        have "\<not> updated (scanLog env1 ?np d (?np \<in> seenNotifications s))"
        proof
          assume up: "updated (scanLog env1 ?np d (?np \<in> seenNotifications s))"
          obtain pre row post where "dataRows d = pre @ row # post" and "rowHas ?np ''Sent'' row"
            using scanLog_frame [of env1 ?np d "?np \<in> seenNotifications s"] up by blast
          then show False using h Some by auto
        qed
        then show ?thesis using Some by simp
      qed
      then show ?thesis using update_idle [OF free assms(1), of env1] by blast
    qed
    then show ?thesis using 1 rest(2) by auto
  qed
  show ?thesis
    using 1 2 rest once never by blast
qed

text \<open>
  Claim C6, as amended. The phone has a Sent row among the rows of the log, no Seen
  row, and no notification on record; the call is not held up and the file system
  works. Then one Sent row of the phone is replaced, in its place, by a row that
  keeps its phone, name and send timestamp, has status Seen, the current time as
  seen timestamp and the rounded seconds from the send timestamp to now (and the
  current time as update time when the old row had that column). The function
  returns no value: the name of the rewritten row goes, with the phone, to the
  operator notification, which is sent when the name is not empty and the phone is
  among the leads.
\<close>

theorem seen_transition_rewrites:
  assumes "\<not> mainLogLock s"
    and "normalizePhone_v1 ph \<notin> processingSeenStatus s"
    and "normalizePhone_v1 ph \<notin> seenNotifications s"
    and "mainLogFile s = Some logData"
    and "\<not> readFileFails env" and "\<not> writeFileFails env"
    and "\<exists>row\<in>set (dataRows logData). rowHas (normalizePhone_v1 ph) ''Sent'' row"
    and "\<forall>row\<in>set (dataRows logData). \<not> rowHas (normalizePhone_v1 ph) ''Seen'' row"
  shows "\<exists>r pre row post.
           updateLogWithSeenStatus env ph s = Some r \<and>
           dataRows logData = pre @ row # post \<and>
           rowHas (normalizePhone_v1 ph) ''Sent'' row \<and>
           mainLogFile (after r) =
             Some (join [CHR 0x0A]
                     (hd (split (CHR 0x0A) logData) # pre @ updatedRow env row # post) @ [CHR 0x0A]) \<and>
           split (CHR '','') (updatedRow env row) =
             [column (split (CHR '','') row) 0, column (split (CHR '','') row) 1,
              column (split (CHR '','') row) 2, ''Seen'', formatTimestamp (now env),
              timeToSeeValue env (column (split (CHR '','') row) 2)] @
             (if length (split (CHR '','') row) \<ge> 7 then [formatTimestamp (now env)] else []) \<and>
           returned r = None \<and>
           notified r =
             (if column (split (CHR '','') row) 1 \<noteq> [] \<and> phoneInLeads env
              then Some (column (split (CHR '','') row) 1, ph) else None) \<and>
           fileWrites r = 1 \<and>
           normalizePhone_v1 ph \<in> seenNotifications (after r)"
proof -
  let ?np = "normalizePhone_v1 ph"
  let ?sc = "scanLog env ?np logData (?np \<in> seenNotifications s)"
  have sc: "?sc = scanLog env ?np logData False" using assms(3) by simp
  have up: "updated ?sc" and ns: "\<not> alreadySeen ?sc"
    unfolding sc using scanLog_updates [OF assms(8,7), of env] by simp_all
  obtain pre row post where dr: "dataRows logData = pre @ row # post"
    and rh: "rowHas ?np ''Sent'' row"
    and nr: "newRows ?sc = hd (split (CHR 0x0A) logData) # pre @ updatedRow env row # post"
    and cn: "customerName ?sc = Some (column (split (CHR '','') row) 1)"
    using scanLog_frame [of env ?np logData "?np \<in> seenNotifications s"] up by blast
  obtain r where r: "updateLogWithSeenStatus env ph s = Some r"
    and f: "mainLogFile (after r) =
             Some (join [CHR 0x0A]
                     (hd (split (CHR 0x0A) logData) # pre @ updatedRow env row # post) @ [CHR 0x0A])"
    and rest: "returned r = None"
      "notified r =
             (if column (split (CHR '','') row) 1 \<noteq> [] \<and> phoneInLeads env
              then Some (column (split (CHR '','') row) 1, ph) else None)"
      "fileWrites r = 1" "?np \<in> seenNotifications (after r)"
    using update_writes [OF assms(2,1,4,5) up assms(6)] nr cn ns by simp
  show ?thesis
    using r dr rh f rest updatedRow_columns [of env row] by blast
qed

theorem seen_transition_rewrites_witness:
  "updateLogWithSeenStatus
     \<lparr>now = \<lparr>fullYear = 2025, monthIndex = 6, dayOfMonth = 20, hours = 9, minutes = 5,
              seconds = 7, timeValue = 1753002307000\<rparr>,
      dateParse = (\<lambda>ts. if ts = ''2025-07-19 10:00:00'' then Some 1752919200000 else None),
      readFileFails = False, writeFileFails = False, phoneInLeads = True\<rparr>
     ''9876543210''
     \<lparr>mainLogFile = Some (mainHeader_v1 @
        ''919876543210,Asha,2025-07-19 10:00:00,Sent,,,2025-07-19 10:00:00'' @ [CHR 0x0A]),
      mainLogLock = False, seenNotifications = {}, processingSeenStatus = {}\<rparr>
   = Some \<lparr>after =
       \<lparr>mainLogFile = Some (mainHeader_v1 @
          ''919876543210,Asha,2025-07-19 10:00:00,Seen,2025-07-20 09:05:07,83107,2025-07-20 09:05:07'' @
          [CHR 0x0A]),
        mainLogLock = False, seenNotifications = {''919876543210''}, processingSeenStatus = {}\<rparr>,
      returned = None, fileWrites = 1, notified = Some (''Asha'', ''9876543210'')\<rparr>"
proof -
  let ?env = "\<lparr>now = \<lparr>fullYear = 2025, monthIndex = 6, dayOfMonth = 20, hours = 9, minutes = 5,
              seconds = 7, timeValue = 1753002307000\<rparr>,
      dateParse = (\<lambda>ts. if ts = ''2025-07-19 10:00:00'' then Some 1752919200000 else None),
      readFileFails = False, writeFileFails = False, phoneInLeads = True\<rparr>"
  let ?log = "mainHeader_v1 @
        ''919876543210,Asha,2025-07-19 10:00:00,Sent,,,2025-07-19 10:00:00'' @ [CHR 0x0A]"
  let ?s = "\<lparr>mainLogFile = Some ?log,
      mainLogLock = False, seenNotifications = {}, processingSeenStatus = {}\<rparr>"
  have h1: "\<not> mainLogLock ?s" by simp
  have h2: "normalizePhone_v1 ''9876543210'' \<notin> processingSeenStatus ?s" by simp
  have h3: "normalizePhone_v1 ''9876543210'' \<notin> seenNotifications ?s" by simp
  have h4: "mainLogFile ?s = Some ?log" by simp
  have h5: "\<not> readFileFails ?env" by simp
  have h6: "\<not> writeFileFails ?env" by simp
  have h7: "\<exists>row\<in>set (dataRows ?log). rowHas (normalizePhone_v1 ''9876543210'') ''Sent'' row"
    by code_simp
  have h8: "\<forall>row\<in>set (dataRows ?log). \<not> rowHas (normalizePhone_v1 ''9876543210'') ''Seen'' row"
    by code_simp
  have e: "updateLogWithSeenStatus ?env ''9876543210'' ?s
   = Some \<lparr>after =
       \<lparr>mainLogFile = Some (mainHeader_v1 @
          ''919876543210,Asha,2025-07-19 10:00:00,Seen,2025-07-20 09:05:07,83107,2025-07-20 09:05:07'' @
          [CHR 0x0A]),
        mainLogLock = False, seenNotifications = {''919876543210''}, processingSeenStatus = {}\<rparr>,
      returned = None, fileWrites = 1, notified = Some (''Asha'', ''9876543210'')\<rparr>"
    by code_simp
  show ?thesis
    using seen_transition_rewrites [OF h1 h2 h3 h4 h5 h6 h7 h8] e by simp
qed

text \<open>
  Claim C6 as stated fails on a log with two Sent rows of the phone. The loop runs
  from the first data row down and rewrites the first Sent row it meets, the older
  one; the most recent Sent row stays Sent. And the call returns no value: the name
  it found goes to the notification.
\<close>

theorem seen_transition_most_recent_counterexample:
  "updateLogWithSeenStatus
     \<lparr>now = \<lparr>fullYear = 2025, monthIndex = 6, dayOfMonth = 20, hours = 9, minutes = 5,
              seconds = 7, timeValue = 1753002307000\<rparr>,
      dateParse = (\<lambda>ts. if ts = ''2025-07-19 10:00:00'' then Some 1752919200000
                        else if ts = ''2025-07-20 09:00:00'' then Some 1753002000000 else None),
      readFileFails = False, writeFileFails = False, phoneInLeads = True\<rparr>
     ''919876543210''
     \<lparr>mainLogFile = Some (mainHeader_v1 @
        ''919876543210,Asha,2025-07-19 10:00:00,Sent,,,2025-07-19 10:00:00'' @ [CHR 0x0A] @
        ''919876543210,Asha K,2025-07-20 09:00:00,Sent,,,2025-07-20 09:00:00'' @ [CHR 0x0A]),
      mainLogLock = False, seenNotifications = {}, processingSeenStatus = {}\<rparr>
   = Some \<lparr>after =
       \<lparr>mainLogFile = Some (mainHeader_v1 @
          ''919876543210,Asha,2025-07-19 10:00:00,Seen,2025-07-20 09:05:07,83107,2025-07-20 09:05:07'' @
          [CHR 0x0A] @
          ''919876543210,Asha K,2025-07-20 09:00:00,Sent,,,2025-07-20 09:00:00'' @ [CHR 0x0A]),
        mainLogLock = False, seenNotifications = {''919876543210''}, processingSeenStatus = {}\<rparr>,
      returned = None, fileWrites = 1, notified = Some (''Asha'', ''919876543210'')\<rparr>"
  by code_simp

theorem seen_transition_idempotent_witness:
  "updateLogWithSeenStatus
     \<lparr>now = \<lparr>fullYear = 2025, monthIndex = 6, dayOfMonth = 20, hours = 9, minutes = 5,
              seconds = 7, timeValue = 1753002307000\<rparr>,
      dateParse = (\<lambda>ts. if ts = ''2025-07-19 10:00:00'' then Some 1752919200000 else None),
      readFileFails = False, writeFileFails = False, phoneInLeads = True\<rparr>
     ''9876543210''
     \<lparr>mainLogFile = Some (mainHeader_v1 @
        ''919876543210,Asha,2025-07-19 10:00:00,Sent,,,2025-07-19 10:00:00'' @ [CHR 0x0A]),
      mainLogLock = False, seenNotifications = {}, processingSeenStatus = {}\<rparr>
   = Some \<lparr>after =
       \<lparr>mainLogFile = Some (mainHeader_v1 @
          ''919876543210,Asha,2025-07-19 10:00:00,Seen,2025-07-20 09:05:07,83107,2025-07-20 09:05:07'' @
          [CHR 0x0A]),
        mainLogLock = False, seenNotifications = {''919876543210''}, processingSeenStatus = {}\<rparr>,
      returned = None, fileWrites = 1, notified = Some (''Asha'', ''9876543210'')\<rparr> \<and>
   updateLogWithSeenStatus
     \<lparr>now = \<lparr>fullYear = 2025, monthIndex = 6, dayOfMonth = 20, hours = 9, minutes = 6,
              seconds = 30, timeValue = 1753002390000\<rparr>,
      dateParse = (\<lambda>ts. if ts = ''2025-07-19 10:00:00'' then Some 1752919200000 else None),
      readFileFails = False, writeFileFails = False, phoneInLeads = True\<rparr>
     ''9876543210''
     \<lparr>mainLogFile = Some (mainHeader_v1 @
          ''919876543210,Asha,2025-07-19 10:00:00,Seen,2025-07-20 09:05:07,83107,2025-07-20 09:05:07'' @
          [CHR 0x0A]),
        mainLogLock = False, seenNotifications = {''919876543210''}, processingSeenStatus = {}\<rparr>
   = Some \<lparr>after =
       \<lparr>mainLogFile = Some (mainHeader_v1 @
          ''919876543210,Asha,2025-07-19 10:00:00,Seen,2025-07-20 09:05:07,83107,2025-07-20 09:05:07'' @
          [CHR 0x0A]),
        mainLogLock = False, seenNotifications = {''919876543210''}, processingSeenStatus = {}\<rparr>,
      returned = None, fileWrites = 0, notified = None\<rparr>"
proof -
  let ?env1 = "\<lparr>now = \<lparr>fullYear = 2025, monthIndex = 6, dayOfMonth = 20, hours = 9, minutes = 5,
              seconds = 7, timeValue = 1753002307000\<rparr>,
      dateParse = (\<lambda>ts. if ts = ''2025-07-19 10:00:00'' then Some 1752919200000 else None),
      readFileFails = False, writeFileFails = False, phoneInLeads = True\<rparr>"
  let ?env2 = "\<lparr>now = \<lparr>fullYear = 2025, monthIndex = 6, dayOfMonth = 20, hours = 9, minutes = 6,
              seconds = 30, timeValue = 1753002390000\<rparr>,
      dateParse = (\<lambda>ts. if ts = ''2025-07-19 10:00:00'' then Some 1752919200000 else None),
      readFileFails = False, writeFileFails = False, phoneInLeads = True\<rparr>"
  let ?log = "mainHeader_v1 @
        ''919876543210,Asha,2025-07-19 10:00:00,Sent,,,2025-07-19 10:00:00'' @ [CHR 0x0A]"
  let ?s = "\<lparr>mainLogFile = Some (mainHeader_v1 @
        ''919876543210,Asha,2025-07-19 10:00:00,Sent,,,2025-07-19 10:00:00'' @ [CHR 0x0A]),
      mainLogLock = False, seenNotifications = {}, processingSeenStatus = {}\<rparr>"
  let ?s1 = "\<lparr>mainLogFile = Some (mainHeader_v1 @
          ''919876543210,Asha,2025-07-19 10:00:00,Seen,2025-07-20 09:05:07,83107,2025-07-20 09:05:07'' @
          [CHR 0x0A]),
        mainLogLock = False, seenNotifications = {''919876543210''}, processingSeenStatus = {}\<rparr>"
  have h1: "\<not> mainLogLock ?s" by simp
  have h2: "\<not> readFileFails ?env1" by simp
  have h3: "normalizePhone_v1 ''9876543210'' \<notin> processingSeenStatus ?s \<and>
            normalizePhone_v1 ''9876543210'' \<notin> seenNotifications ?s \<and>
            \<not> writeFileFails ?env1"
    by simp
  have h4: "\<exists>row\<in>set (dataRows ?log). rowHas (normalizePhone_v1 ''9876543210'') ''Sent'' row"
    by code_simp
  have h5: "\<forall>row\<in>set (dataRows ?log). \<not> rowHas (normalizePhone_v1 ''9876543210'') ''Seen'' row"
    by code_simp
  have h6: "\<exists>logData. mainLogFile ?s = Some logData \<and>
               (\<exists>row\<in>set (dataRows logData). rowHas (normalizePhone_v1 ''9876543210'') ''Sent'' row) \<and>
               (\<forall>row\<in>set (dataRows logData). \<not> rowHas (normalizePhone_v1 ''9876543210'') ''Seen'' row)"
    using h4 h5 by simp
  have e1: "updateLogWithSeenStatus ?env1 ''9876543210'' ?s
   = Some \<lparr>after = ?s1, returned = None, fileWrites = 1,
            notified = Some (''Asha'', ''9876543210'')\<rparr>"
    by code_simp
  obtain r1 r2 where a: "updateLogWithSeenStatus ?env1 ''9876543210'' ?s = Some r1"
    and b: "updateLogWithSeenStatus ?env2 ''9876543210'' (after r1) = Some r2"
    and c: "mainLogFile (after r2) = mainLogFile (after r1)"
      "fileWrites r2 = 0" "returned r2 = None" "notified r2 = None"
    and d: "fileWrites r1 = 1" "mainLogFile (after r1) \<noteq> mainLogFile ?s"
    using seen_transition_idempotent [OF h1 h2, of "''9876543210''" ?env2] h3 h6 by blast
  have r1: "r1 = \<lparr>after = ?s1, returned = None, fileWrites = 1,
                   notified = Some (''Asha'', ''9876543210'')\<rparr>"
    using a e1 by simp
  have e2: "updateLogWithSeenStatus ?env2 ''9876543210'' ?s1
   = Some \<lparr>after = ?s1, returned = None, fileWrites = 0, notified = None\<rparr>"
    by code_simp
  show ?thesis using a b c d r1 e2 by simp
qed

text \<open>
  Claim C5 as stated fails for a phone that has no Sent row: the log holds a Sent row
  of another phone and a Failed row of this one, and neither of two calls writes the
  file, so the two calls modify the log zero times, not once.
\<close>

theorem seen_transition_no_sent_row_counterexample:
  "updateLogWithSeenStatus
     \<lparr>now = \<lparr>fullYear = 2025, monthIndex = 6, dayOfMonth = 20, hours = 9, minutes = 5,
              seconds = 7, timeValue = 1753002307000\<rparr>,
      dateParse = (\<lambda>ts. if ts = ''2025-07-19 10:00:00'' then Some 1752919200000 else None),
      readFileFails = False, writeFileFails = False, phoneInLeads = True\<rparr>
     ''9876543210''
     \<lparr>mainLogFile = Some (mainHeader_v1 @
        ''911234567890,Ravi,2025-07-19 10:00:00,Sent,,,2025-07-19 10:00:00'' @ [CHR 0x0A] @
        ''919876543210,Asha,2025-07-19 10:00:00,Failed,,,2025-07-19 10:00:00'' @ [CHR 0x0A]),
      mainLogLock = False, seenNotifications = {}, processingSeenStatus = {}\<rparr>
   = Some \<lparr>after =
       \<lparr>mainLogFile = Some (mainHeader_v1 @
        ''911234567890,Ravi,2025-07-19 10:00:00,Sent,,,2025-07-19 10:00:00'' @ [CHR 0x0A] @
        ''919876543210,Asha,2025-07-19 10:00:00,Failed,,,2025-07-19 10:00:00'' @ [CHR 0x0A]),
      mainLogLock = False, seenNotifications = {}, processingSeenStatus = {}\<rparr>,
      returned = None, fileWrites = 0, notified = None\<rparr> \<and>
   updateLogWithSeenStatus
     \<lparr>now = \<lparr>fullYear = 2025, monthIndex = 6, dayOfMonth = 20, hours = 9, minutes = 6,
              seconds = 30, timeValue = 1753002390000\<rparr>,
      dateParse = (\<lambda>ts. if ts = ''2025-07-19 10:00:00'' then Some 1752919200000 else None),
      readFileFails = False, writeFileFails = False, phoneInLeads = True\<rparr>
     ''9876543210''
     \<lparr>mainLogFile = Some (mainHeader_v1 @
        ''911234567890,Ravi,2025-07-19 10:00:00,Sent,,,2025-07-19 10:00:00'' @ [CHR 0x0A] @
        ''919876543210,Asha,2025-07-19 10:00:00,Failed,,,2025-07-19 10:00:00'' @ [CHR 0x0A]),
      mainLogLock = False, seenNotifications = {}, processingSeenStatus = {}\<rparr>
   = Some \<lparr>after =
       \<lparr>mainLogFile = Some (mainHeader_v1 @
        ''911234567890,Ravi,2025-07-19 10:00:00,Sent,,,2025-07-19 10:00:00'' @ [CHR 0x0A] @
        ''919876543210,Asha,2025-07-19 10:00:00,Failed,,,2025-07-19 10:00:00'' @ [CHR 0x0A]),
      mainLogLock = False, seenNotifications = {}, processingSeenStatus = {}\<rparr>,
      returned = None, fileWrites = 0, notified = None\<rparr>"
  by code_simp

theorem seen_update_frame_witness:
  "updateLogWithSeenStatus
     \<lparr>now = \<lparr>fullYear = 2025, monthIndex = 6, dayOfMonth = 20, hours = 9, minutes = 5,
              seconds = 7, timeValue = 1753002307000\<rparr>,
      dateParse = (\<lambda>ts. if ts = ''2025-07-19 10:00:00'' then Some 1752919200000 else None),
      readFileFails = False, writeFileFails = False, phoneInLeads = False\<rparr>
     ''+91 98765 43210''
     \<lparr>mainLogFile = Some (mainHeader_v1 @
        ''911234567890,Ravi,2025-07-19 09:59:55,Sent,,,2025-07-19 09:59:55'' @ [CHR 0x0A] @
        ''919876543210,Asha,2025-07-19 10:00:00,Sent,,,2025-07-19 10:00:00'' @ [CHR 0x0A] @
        ''  '' @ [CHR 0x0A] @
        ''919876543210,Asha,2025-07-19 10:00:05,Failed'' @ [CHR 0x0A] @
        ''915555555555,Meena,2025-07-19 10:00:10,Invalid,,,2025-07-19 10:00:10''),
      mainLogLock = False, seenNotifications = {}, processingSeenStatus = {}\<rparr>
   = Some \<lparr>after =
       \<lparr>mainLogFile = Some (mainHeader_v1 @
          ''911234567890,Ravi,2025-07-19 09:59:55,Sent,,,2025-07-19 09:59:55'' @ [CHR 0x0A] @
          ''919876543210,Asha,2025-07-19 10:00:00,Seen,2025-07-20 09:05:07,83107,2025-07-20 09:05:07'' @
          [CHR 0x0A] @
          ''919876543210,Asha,2025-07-19 10:00:05,Failed'' @ [CHR 0x0A] @
          ''915555555555,Meena,2025-07-19 10:00:10,Invalid,,,2025-07-19 10:00:10'' @ [CHR 0x0A]),
        mainLogLock = False, seenNotifications = {''919876543210''}, processingSeenStatus = {}\<rparr>,
      returned = None, fileWrites = 1, notified = None\<rparr>"
proof -
  let ?env = "\<lparr>now = \<lparr>fullYear = 2025, monthIndex = 6, dayOfMonth = 20, hours = 9, minutes = 5,
              seconds = 7, timeValue = 1753002307000\<rparr>,
      dateParse = (\<lambda>ts. if ts = ''2025-07-19 10:00:00'' then Some 1752919200000 else None),
      readFileFails = False, writeFileFails = False, phoneInLeads = False\<rparr>"
  let ?s = "\<lparr>mainLogFile = Some (mainHeader_v1 @
        ''911234567890,Ravi,2025-07-19 09:59:55,Sent,,,2025-07-19 09:59:55'' @ [CHR 0x0A] @
        ''919876543210,Asha,2025-07-19 10:00:00,Sent,,,2025-07-19 10:00:00'' @ [CHR 0x0A] @
        ''  '' @ [CHR 0x0A] @
        ''919876543210,Asha,2025-07-19 10:00:05,Failed'' @ [CHR 0x0A] @
        ''915555555555,Meena,2025-07-19 10:00:10,Invalid,,,2025-07-19 10:00:10''),
      mainLogLock = False, seenNotifications = {}, processingSeenStatus = {}\<rparr>"
  have h: "\<not> mainLogLock ?s" by simp
  have e: "updateLogWithSeenStatus ?env ''+91 98765 43210'' ?s
   = Some \<lparr>after =
       \<lparr>mainLogFile = Some (mainHeader_v1 @
          ''911234567890,Ravi,2025-07-19 09:59:55,Sent,,,2025-07-19 09:59:55'' @ [CHR 0x0A] @
          ''919876543210,Asha,2025-07-19 10:00:00,Seen,2025-07-20 09:05:07,83107,2025-07-20 09:05:07'' @
          [CHR 0x0A] @
          ''919876543210,Asha,2025-07-19 10:00:05,Failed'' @ [CHR 0x0A] @
          ''915555555555,Meena,2025-07-19 10:00:10,Invalid,,,2025-07-19 10:00:10'' @ [CHR 0x0A]),
        mainLogLock = False, seenNotifications = {''919876543210''}, processingSeenStatus = {}\<rparr>,
      returned = None, fileWrites = 1, notified = None\<rparr>"
    by code_simp
  show ?thesis
    using seen_update_frame [OF h, of ?env "''+91 98765 43210''"] e by simp
qed

subsection \<open>Facts about the log files of the cycle\<close>

lemma writeEntry_noFailure:
  "fst (writeEntry header line noFailure f)"
  by (simp add: writeEntry_def noFailure_def Let_def split: option.splits)

text \<open>The file \<open>written\<close> gives is the file \<^verbatim>\<open>processLogQueue\<close> leaves when it
  works through the entries and no file-system call fails.\<close>

lemma processLogQueue_written:
  "processLogQueue header line (replicate (length es) noFailure)
     \<lparr>pending = es, isProcessing = False, fileLock = False, logFile = f\<rparr>
   = Some \<lparr>pending = [], isProcessing = False, fileLock = False,
           logFile = written header line f es\<rparr>"
proof (induction es arbitrary: f)
  case Nil
  then show ?case by simp
next
  case (Cons e es)
  obtain b f' where w: "writeEntry header (line e) noFailure f = (b, f')"
    by (cases "writeEntry header (line e) noFailure f")
  have b: "b" using writeEntry_noFailure [of header "line e" f] w by simp
  have "processEntry header line noFailure
          \<lparr>pending = e # es, isProcessing = False, fileLock = False, logFile = f\<rparr>
        = Some \<lparr>pending = es, isProcessing = False, fileLock = False, logFile = f'\<rparr>"
    using w b by (simp add: processEntry_def)
  then show ?case using Cons.IH [of f'] w by simp
qed

subsection \<open>Facts about the dispatch of one lead\<close>

lemma leadStep_v1_reaches_try:
  assumes "processingAtStart env"
    and "normalizePhone_v1 (leadPhone l) \<notin> processingLocks w"
    and "normalizePhone_v1 (leadPhone l) \<notin> sp"
    and "tryWelcome_v1 env l
           (w\<lparr>processingLocks := insert (normalizePhone_v1 (leadPhone l)) (processingLocks w)\<rparr>) sp
         = (Throws e, w1, sp1)"
    and "catchFailure normalizePhone_v1 env l e w1 sp1 = (Returns u, w2, sp2)"
  shows "leadStep_v1 env l w sp =
           (if processingAtEnd env then Continue else Break,
            w2\<lparr>processingLocks := processingLocks w2 - {normalizePhone_v1 (leadPhone l)}\<rparr>, sp2)"
  using assms by (simp add: leadStep_v1_def Let_def)

lemma leadStep_v2_reaches_try:
  assumes "processingAtStart env"
    and "normalizePhone_v2 (leadPhone l) \<notin> processingLocks w"
    and "normalizePhone_v2 (leadPhone l) \<notin> sp"
    and "tryWelcome_v2 env l
           (w\<lparr>processingLocks := insert (normalizePhone_v2 (leadPhone l)) (processingLocks w)\<rparr>) sp
         = (Throws e, w1, sp1)"
    and "catchFailure normalizePhone_v2 env l e w1 sp1 = (Returns u, w2, sp2)"
  shows "leadStep_v2 env l w sp =
           (if processingAtEnd env then Continue else Break,
            w2\<lparr>processingLocks := processingLocks w2 - {normalizePhone_v2 (leadPhone l)}\<rparr>, sp2)"
  using assms by (simp add: leadStep_v2_def Let_def)



lemma sendMessage_keeps:
  "processingLocks (snd (sendMessage ph r w)) = processingLocks w \<and>
   messageSendingLocks (snd (sendMessage ph r w)) = messageSendingLocks w \<and>
   isRunning (snd (sendMessage ph r w)) = isRunning w"
  by (simp add: sendMessage_def split: option.splits)

lemma welcomePart_v2_keeps:
  "processingLocks (snd (welcomePart_v2 env np nm w)) = processingLocks w \<and>
   messageSendingLocks (snd (welcomePart_v2 env np nm w)) = messageSendingLocks w \<and>
   isRunning (snd (welcomePart_v2 env np nm w)) = isRunning w"
proof -
  obtain o1 w1 where s: "sendMessage np (sendWelcome env) w = (o1, w1)"
    by (cases "sendMessage np (sendWelcome env) w")
  have k: "processingLocks w1 = processingLocks w \<and>
           messageSendingLocks w1 = messageSendingLocks w \<and> isRunning w1 = isRunning w"
    using sendMessage_keeps [of np "sendWelcome env" w] s by simp
  show ?thesis
    using k s
    by (simp add: welcomePart_v2_def logSentMessage_def Let_def
             split: outcome.splits option.splits thrown.splits)
qed

lemma catalogPart_v2_keeps:
  "processingLocks (snd (catalogPart_v2 env np nm w)) = processingLocks w \<and>
   messageSendingLocks (snd (catalogPart_v2 env np nm w)) = messageSendingLocks w \<and>
   isRunning (snd (catalogPart_v2 env np nm w)) = isRunning w"
proof -
  obtain o1 w1 where s: "sendMessage np (sendCatalog env) w = (o1, w1)"
    by (cases "sendMessage np (sendCatalog env) w")
  have k: "processingLocks w1 = processingLocks w \<and>
           messageSendingLocks w1 = messageSendingLocks w \<and> isRunning w1 = isRunning w"
    using sendMessage_keeps [of np "sendCatalog env" w] s by simp
  show ?thesis
    using k s
    by (simp add: catalogPart_v2_def logCatalogSent_def Let_def
             split: outcome.splits option.splits thrown.splits)
qed

text \<open>\<^verbatim>\<open>sendWelcomeWithCatalog\<close> leaves the processing locks and the running flag
  alone, and the sending locks as it found them.\<close>

lemma sendWelcomeWithCatalog_v2_keeps:
  "processingLocks (snd (sendWelcomeWithCatalog_v2 env l w)) = processingLocks w \<and>
   messageSendingLocks (snd (sendWelcomeWithCatalog_v2 env l w)) = messageSendingLocks w \<and>
   isRunning (snd (sendWelcomeWithCatalog_v2 env l w)) = isRunning w"
proof (cases "clientReady env \<and> normalizePhone_v2 (leadPhone l) \<notin> messageSendingLocks w")
  case False
  then show ?thesis by (auto simp: sendWelcomeWithCatalog_v2_def Let_def)
next
  case True
  let ?np = "normalizePhone_v2 (leadPhone l)"
  let ?w0 = "w\<lparr>messageSendingLocks := insert ?np (messageSendingLocks w)\<rparr>"
  let ?rw = "if ?np \<notin> getSentPhones normalizePhone_v2 None (csv env) (mainFile_v2 (mainLog ?w0))
             then welcomePart_v2 env ?np (leadName l) ?w0 else (Returns (), ?w0)"
  obtain ow w1 where rw: "?rw = (ow, w1)"
    by (cases ?rw)
  have w1: "processingLocks w1 = processingLocks w \<and>
            messageSendingLocks w1 = insert ?np (messageSendingLocks w) \<and>
            isRunning w1 = isRunning w"
    using welcomePart_v2_keeps [of env ?np "leadName l" ?w0] rw
    by (auto split: if_splits)
  show ?thesis
  proof (cases "readLogs env")
    case (Some e)
    then show ?thesis using True by (simp add: sendWelcomeWithCatalog_v2_def Let_def)
  next
    case None
    show ?thesis
    proof (cases ow)
      case (Throws e)
      have "sendWelcomeWithCatalog_v2 env l w =
              (Throws e, w1\<lparr>messageSendingLocks := messageSendingLocks w1 - {?np}\<rparr>)"
        using True None rw Throws by (simp add: sendWelcomeWithCatalog_v2_def Let_def)
      then show ?thesis using w1 True by simp
    next
      case (Returns u)
      show ?thesis
      proof (cases "?np \<in> getCatalogSentPhones normalizePhone_v2 (csv env) (catalogFile (catalogLog ?w0))")
        case c: True
        have "sendWelcomeWithCatalog_v2 env l w =
                (Returns (), w1\<lparr>messageSendingLocks := messageSendingLocks w1 - {?np}\<rparr>)"
          using True None rw Returns c by (simp add: sendWelcomeWithCatalog_v2_def Let_def)
        then show ?thesis using w1 True by simp
      next
        case c: False
        let ?r = "catalogPart_v2 env ?np (leadName l) w1"
        have "sendWelcomeWithCatalog_v2 env l w =
                (fst ?r, (snd ?r)\<lparr>messageSendingLocks := messageSendingLocks (snd ?r) - {?np}\<rparr>)"
          using True None rw Returns c by (simp add: sendWelcomeWithCatalog_v2_def Let_def)
        then show ?thesis
          using w1 True catalogPart_v2_keeps [of env ?np "leadName l" w1] by simp
      qed
    qed
  qed
qed

lemma tryWelcome_v2_keeps:
  "processingLocks (fst (snd (tryWelcome_v2 env l w sp))) = processingLocks w \<and>
   messageSendingLocks (fst (snd (tryWelcome_v2 env l w sp))) = messageSendingLocks w \<and>
   isRunning (fst (snd (tryWelcome_v2 env l w sp))) = isRunning w"
proof -
  obtain o1 w1 where s: "sendWelcomeWithCatalog_v2 env l w = (o1, w1)"
    by (cases "sendWelcomeWithCatalog_v2 env l w")
  show ?thesis
    using sendWelcomeWithCatalog_v2_keeps [of env l w] s
    by (simp add: tryWelcome_v2_def split: outcome.splits)
qed

lemma tryWelcome_v1_keeps:
  "processingLocks (fst (snd (tryWelcome_v1 env l w sp))) = processingLocks w \<and>
   messageSendingLocks (fst (snd (tryWelcome_v1 env l w sp))) = messageSendingLocks w \<and>
   isRunning (fst (snd (tryWelcome_v1 env l w sp))) = isRunning w"
proof -
  obtain o1 w1 where s: "sendWelcomeMessage_v1 env l w = (o1, w1)"
    by (cases "sendWelcomeMessage_v1 env l w")
  have k: "processingLocks w1 = processingLocks w \<and>
           messageSendingLocks w1 = messageSendingLocks w \<and> isRunning w1 = isRunning w"
    using sendMessage_keeps [of "leadPhone l" "sendWelcome env" w] s
    by (auto simp: sendWelcomeMessage_v1_def split: if_splits)
  show ?thesis
    using k s
    by (simp add: tryWelcome_v1_def logSentMessage_def split: outcome.splits option.splits)
qed

lemma catchFailure_keeps:
  "processingLocks (fst (snd (catchFailure norm env l e w sp))) = processingLocks w \<and>
   messageSendingLocks (fst (snd (catchFailure norm env l e w sp))) = messageSendingLocks w \<and>
   isRunning (fst (snd (catchFailure norm env l e w sp))) = isRunning w"
  by (simp add: catchFailure_def logSentMessage_def split: thrown.splits option.splits)

lemma leadStep_v1_try_returns:
  assumes "processingAtStart env"
    and "normalizePhone_v1 (leadPhone l) \<notin> processingLocks w"
    and "normalizePhone_v1 (leadPhone l) \<notin> sp"
    and "tryWelcome_v1 env l
           (w\<lparr>processingLocks := insert (normalizePhone_v1 (leadPhone l)) (processingLocks w)\<rparr>) sp
         = (Returns u, w2, sp2)"
  shows "leadStep_v1 env l w sp =
           (if processingAtEnd env then Continue else Break,
            w2\<lparr>processingLocks := processingLocks w2 - {normalizePhone_v1 (leadPhone l)}\<rparr>, sp2)"
  using assms by (simp add: leadStep_v1_def Let_def)

lemma leadStep_v1_catch_throws:
  assumes "processingAtStart env"
    and "normalizePhone_v1 (leadPhone l) \<notin> processingLocks w"
    and "normalizePhone_v1 (leadPhone l) \<notin> sp"
    and "tryWelcome_v1 env l
           (w\<lparr>processingLocks := insert (normalizePhone_v1 (leadPhone l)) (processingLocks w)\<rparr>) sp
         = (Throws e, w1, sp1)"
    and "catchFailure normalizePhone_v1 env l e w1 sp1 = (Throws e', w2, sp2)"
  shows "leadStep_v1 env l w sp = (Escape e', w2, sp2)"
  using assms by (simp add: leadStep_v1_def Let_def)

lemma leadStep_v1_skips:
  assumes "\<not> processingAtStart env \<or> normalizePhone_v1 (leadPhone l) \<in> processingLocks w \<or>
           normalizePhone_v1 (leadPhone l) \<in> sp"
  shows "leadStep_v1 env l w sp = (if processingAtStart env then Continue else Break, w, sp)"
  using assms by (auto simp: leadStep_v1_def Let_def)

lemma leadStep_v2_try_returns:
  assumes "processingAtStart env"
    and "normalizePhone_v2 (leadPhone l) \<notin> processingLocks w"
    and "normalizePhone_v2 (leadPhone l) \<notin> sp"
    and "tryWelcome_v2 env l
           (w\<lparr>processingLocks := insert (normalizePhone_v2 (leadPhone l)) (processingLocks w)\<rparr>) sp
         = (Returns u, w2, sp2)"
  shows "leadStep_v2 env l w sp =
           (if processingAtEnd env then Continue else Break,
            w2\<lparr>processingLocks := processingLocks w2 - {normalizePhone_v2 (leadPhone l)}\<rparr>, sp2)"
  using assms by (simp add: leadStep_v2_def Let_def)

lemma leadStep_v2_catch_throws:
  assumes "processingAtStart env"
    and "normalizePhone_v2 (leadPhone l) \<notin> processingLocks w"
    and "normalizePhone_v2 (leadPhone l) \<notin> sp"
    and "tryWelcome_v2 env l
           (w\<lparr>processingLocks := insert (normalizePhone_v2 (leadPhone l)) (processingLocks w)\<rparr>) sp
         = (Throws e, w1, sp1)"
    and "catchFailure normalizePhone_v2 env l e w1 sp1 = (Throws e', w2, sp2)"
  shows "leadStep_v2 env l w sp = (Escape e', w2\<lparr>processingLocks := processingLocks w2 - {normalizePhone_v2 (leadPhone l)}\<rparr>, sp2)"
  using assms by (simp add: leadStep_v2_def Let_def)

lemma leadStep_v2_skips:
  assumes "\<not> processingAtStart env \<or> normalizePhone_v2 (leadPhone l) \<in> processingLocks w \<or>
           normalizePhone_v2 (leadPhone l) \<in> sp"
  shows "leadStep_v2 env l w sp = (if processingAtStart env then Continue else Break, w, sp)"
  using assms by (auto simp: leadStep_v2_def Let_def)

text \<open>
  The later revision: whatever the send, the logging and the \<^verbatim>\<open>catch\<close> block do, the
  dispatch of a lead leaves the processing locks, the sending locks and the running
  flag as it found them. The lock it takes is gone when it ends.
\<close>

lemma leadStep_v2_keeps:
  "processingLocks (fst (snd (leadStep_v2 env l w sp))) = processingLocks w \<and>
   messageSendingLocks (fst (snd (leadStep_v2 env l w sp))) = messageSendingLocks w \<and>
   isRunning (fst (snd (leadStep_v2 env l w sp))) = isRunning w"
proof (cases "processingAtStart env \<and> normalizePhone_v2 (leadPhone l) \<notin> processingLocks w \<and>
              normalizePhone_v2 (leadPhone l) \<notin> sp")
  case False
  then show ?thesis using leadStep_v2_skips [of env l w sp] by auto
next
  case True
  let ?np = "normalizePhone_v2 (leadPhone l)"
  let ?w0 = "w\<lparr>processingLocks := insert ?np (processingLocks w)\<rparr>"
  obtain o1 w1 sp1 where t: "tryWelcome_v2 env l ?w0 sp = (o1, w1, sp1)"
    by (cases "tryWelcome_v2 env l ?w0 sp") auto
  have k1: "processingLocks w1 = insert ?np (processingLocks w) \<and>
            messageSendingLocks w1 = messageSendingLocks w \<and> isRunning w1 = isRunning w"
    using tryWelcome_v2_keeps [of env l ?w0 sp] t by simp
  show ?thesis
  proof (cases o1)
    case (Returns u)
    then show ?thesis
      using leadStep_v2_try_returns [of env l w sp u w1 sp1] True t k1 by simp
  next
    case (Throws e)
    obtain o2 w2 sp2 where c: "catchFailure normalizePhone_v2 env l e w1 sp1 = (o2, w2, sp2)"
      by (cases "catchFailure normalizePhone_v2 env l e w1 sp1") auto
    have k2: "processingLocks w2 = insert ?np (processingLocks w) \<and>
              messageSendingLocks w2 = messageSendingLocks w \<and> isRunning w2 = isRunning w"
      using catchFailure_keeps [of normalizePhone_v2 env l e w1 sp1] c k1 by simp
    show ?thesis
    proof (cases o2)
      case (Returns u)
      then show ?thesis
        using leadStep_v2_reaches_try [of env l w sp e w1 sp1 u w2 sp2] True t c k2 Throws
        by simp
    next
      case t2: (Throws e')
      then show ?thesis
        using leadStep_v2_catch_throws [of env l w sp e w1 sp1 e' w2 sp2] True t c k2 Throws
        by simp
    qed
  qed
qed

text \<open>
  The earlier revision releases the lock when the \<^verbatim>\<open>catch\<close> block completes, and
  keeps it when the \<^verbatim>\<open>catch\<close> block throws.
\<close>

lemma leadStep_v1_keeps:
  "isRunning (fst (snd (leadStep_v1 env l w sp))) = isRunning w \<and>
   messageSendingLocks (fst (snd (leadStep_v1 env l w sp))) = messageSendingLocks w \<and>
   processingLocks (fst (snd (leadStep_v1 env l w sp))) =
     (case fst (leadStep_v1 env l w sp) of
        Escape e \<Rightarrow> insert (normalizePhone_v1 (leadPhone l)) (processingLocks w)
      | _ \<Rightarrow> processingLocks w)"
proof (cases "processingAtStart env \<and> normalizePhone_v1 (leadPhone l) \<notin> processingLocks w \<and>
              normalizePhone_v1 (leadPhone l) \<notin> sp")
  case False
  then show ?thesis using leadStep_v1_skips [of env l w sp] by auto
next
  case True
  let ?np = "normalizePhone_v1 (leadPhone l)"
  let ?w0 = "w\<lparr>processingLocks := insert ?np (processingLocks w)\<rparr>"
  obtain o1 w1 sp1 where t: "tryWelcome_v1 env l ?w0 sp = (o1, w1, sp1)"
    by (cases "tryWelcome_v1 env l ?w0 sp") auto
  have k1: "processingLocks w1 = insert ?np (processingLocks w) \<and>
            messageSendingLocks w1 = messageSendingLocks w \<and> isRunning w1 = isRunning w"
    using tryWelcome_v1_keeps [of env l ?w0 sp] t by simp
  show ?thesis
  proof (cases o1)
    case (Returns u)
    then show ?thesis
      using leadStep_v1_try_returns [of env l w sp u w1 sp1] True t k1 by simp
  next
    case (Throws e)
    obtain o2 w2 sp2 where c: "catchFailure normalizePhone_v1 env l e w1 sp1 = (o2, w2, sp2)"
      by (cases "catchFailure normalizePhone_v1 env l e w1 sp1") auto
    have k2: "processingLocks w2 = insert ?np (processingLocks w) \<and>
              messageSendingLocks w2 = messageSendingLocks w \<and> isRunning w2 = isRunning w"
      using catchFailure_keeps [of normalizePhone_v1 env l e w1 sp1] c k1 by simp
    show ?thesis
    proof (cases o2)
      case (Returns u)
      then show ?thesis
        using leadStep_v1_reaches_try [of env l w sp e w1 sp1 u w2 sp2] True t c k2 Throws
        by simp
    next
      case t2: (Throws e')
      then show ?thesis
        using leadStep_v1_catch_throws [of env l w sp e w1 sp1 e' w2 sp2] True t c k2 Throws
        by simp
    qed
  qed
qed











text \<open>
  C3 on the earlier revision, at a send that rejects with a value that has no
  \<^verbatim>\<open>message\<close> (a string, say): the \<^verbatim>\<open>catch\<close> block throws on
  \<^verbatim>\<open>error.message.toLowerCase()\<close>, the statement that deletes the lock is not reached,
  and the phone stays in the processing locks; a later dispatch of the lead, with a
  send that would succeed, finds the lock and skips the lead. The later revision,
  at the same input, ends with no lock held. (No log has an entry, so the reader has
  no row to yield.)
\<close>

theorem processing_lock_leak_v1:
  "leadStep_v1
     \<lparr>processingAtStart = True, processingAtEnd = True, clientReady = True,
       sendWelcome = Some Other, sendCatalog = Some Other,
       sendLocation = None, logWelcome = None, logCatalog = None, logFailure = None,
       readLogs = None,
       clock = \<lparr>fullYear = 2025, monthIndex = 6, dayOfMonth = 20, hours = 9, minutes = 5,
                 seconds = 7, timeValue = 1752982507000\<rparr>,
       csv = (\<lambda>content. [])\<rparr>
     \<lparr>leadName = ''Asha'', leadPhone = ''9876543210'', leadSendCatalog = True\<rparr>
     \<lparr>processingLocks = {}, messageSendingLocks = {}, mainLog = [],
       catalogLog = [], sends = [], fetches = 0, skips = 0, isRunning = False\<rparr>
     {}
   = (Escape typeError,
      \<lparr>processingLocks = {''919876543210''}, messageSendingLocks = {}, mainLog = [],
       catalogLog = [], sends = [''9876543210@c.us''], fetches = 0, skips = 0, isRunning = False\<rparr>,
      {}) \<and>
   leadStep_v1
     \<lparr>processingAtStart = True, processingAtEnd = True, clientReady = True,
       sendWelcome = None, sendCatalog = None,
       sendLocation = None, logWelcome = None, logCatalog = None, logFailure = None,
       readLogs = None,
       clock = \<lparr>fullYear = 2025, monthIndex = 6, dayOfMonth = 20, hours = 9, minutes = 5,
                 seconds = 7, timeValue = 1752982507000\<rparr>,
       csv = (\<lambda>content. [])\<rparr>
     \<lparr>leadName = ''Asha'', leadPhone = ''9876543210'', leadSendCatalog = True\<rparr>
     \<lparr>processingLocks = {''919876543210''}, messageSendingLocks = {}, mainLog = [],
       catalogLog = [], sends = [''9876543210@c.us''], fetches = 0, skips = 0, isRunning = False\<rparr>
     {}
   = (Continue,
      \<lparr>processingLocks = {''919876543210''}, messageSendingLocks = {}, mainLog = [],
       catalogLog = [], sends = [''9876543210@c.us''], fetches = 0, skips = 0, isRunning = False\<rparr>,
      {}) \<and>
   leadStep_v2
     \<lparr>processingAtStart = True, processingAtEnd = True, clientReady = True,
       sendWelcome = Some Other, sendCatalog = Some Other,
       sendLocation = None, logWelcome = None, logCatalog = None, logFailure = None,
       readLogs = None,
       clock = \<lparr>fullYear = 2025, monthIndex = 6, dayOfMonth = 20, hours = 9, minutes = 5,
                 seconds = 7, timeValue = 1752982507000\<rparr>,
       csv = (\<lambda>content. [])\<rparr>
     \<lparr>leadName = ''Asha'', leadPhone = ''9876543210'', leadSendCatalog = True\<rparr>
     \<lparr>processingLocks = {}, messageSendingLocks = {}, mainLog = [],
       catalogLog = [], sends = [], fetches = 0, skips = 0, isRunning = False\<rparr>
     {}
   = (Escape typeError,
      \<lparr>processingLocks = {}, messageSendingLocks = {}, mainLog = [],
       catalogLog = [], sends = [''919876543210@c.us'', ''919876543210@c.us''], fetches = 0, skips = 0, isRunning = False\<rparr>,
      {})"
  by code_simp

text \<open>
  C1 on both revisions, two cycles over one lead. In the first cycle a send fails
  with a timeout: the welcome send in the earlier revision; in the later revision
  the welcome send and the catalog send, or the catalog send after a welcome that
  went out. The failure is logged with status Failed and the \<^verbatim>\<open>catch\<close> block adds
  the phone to the sent set. The second cycle, whose sends would succeed, reads the
  log back (the reader yields the rows of the file), finds the phone in the sent set
  it loads, and skips the lead: the chat ids sent to and the logs are those of the
  first cycle, and in the later revision the catalog is never sent.
\<close>

theorem failed_send_not_retried:
  "run_v1
     (Invoke True #
      replicate 7 (Resume 0
       \<lparr>fetchResult = [\<lparr>leadName = ''Asha'', leadPhone = ''9876543210'', leadSendCatalog = False\<rparr>], logRead = None,
        leadRun = \<lparr>processingAtStart = True, processingAtEnd = True, clientReady = True,
       sendWelcome = Some (Error ''Evaluation failed: timeout''), sendCatalog = None,
       sendLocation = None, logWelcome = None, logCatalog = None, logFailure = None,
       readLogs = None,
       clock = \<lparr>fullYear = 2025, monthIndex = 6, dayOfMonth = 20, hours = 9, minutes = 5,
                 seconds = 7, timeValue = 1752982507000\<rparr>,
       csv = (\<lambda>content.
            if content =
               ''Phone,Name,Timestamp,Status,SeenTimestamp,TimeToSee,LastUpdated'' @ [CHR 0x0A] @
               ''919876543210,Asha,2025-07-20 09:05:07,Failed,,,2025-07-20 09:05:07'' @ [CHR 0x0A]
            then [[(''Phone'', ''919876543210''), (''Name'', ''Asha''),
                      (''Timestamp'', ''2025-07-20 09:05:07''), (''Status'', ''Failed''),
                      (''SeenTimestamp'', []), (''TimeToSee'', []),
                      (''LastUpdated'', ''2025-07-20 09:05:07'')]]
            else [])\<rparr>\<rparr>) @
      Invoke True #
      replicate 7 (Resume 1
       \<lparr>fetchResult = [\<lparr>leadName = ''Asha'', leadPhone = ''9876543210'', leadSendCatalog = False\<rparr>], logRead = None,
        leadRun = \<lparr>processingAtStart = True, processingAtEnd = True, clientReady = True,
       sendWelcome = None, sendCatalog = None,
       sendLocation = None, logWelcome = None, logCatalog = None, logFailure = None,
       readLogs = None,
       clock = \<lparr>fullYear = 2025, monthIndex = 6, dayOfMonth = 20, hours = 9, minutes = 5,
                 seconds = 7, timeValue = 1752982507000\<rparr>,
       csv = (\<lambda>content.
            if content =
               ''Phone,Name,Timestamp,Status,SeenTimestamp,TimeToSee,LastUpdated'' @ [CHR 0x0A] @
               ''919876543210,Asha,2025-07-20 09:05:07,Failed,,,2025-07-20 09:05:07'' @ [CHR 0x0A]
            then [[(''Phone'', ''919876543210''), (''Name'', ''Asha''),
                      (''Timestamp'', ''2025-07-20 09:05:07''), (''Status'', ''Failed''),
                      (''SeenTimestamp'', []), (''TimeToSee'', []),
                      (''LastUpdated'', ''2025-07-20 09:05:07'')]]
            else [])\<rparr>\<rparr>))
     \<lparr>world_v1 =
        \<lparr>processingLocks = {}, messageSendingLocks = {}, mainLog = [],
       catalogLog = [], sends = [], fetches = 0, skips = 0, isRunning = False\<rparr>,
      tasks_v1 = []\<rparr>
   = \<lparr>world_v1 =
        \<lparr>processingLocks = {}, messageSendingLocks = {}, mainLog = [\<lparr>phone = ''919876543210'', name = ''Asha'', timestamp = ''2025-07-20 09:05:07'',
         status = ''Failed'', seenTimestamp = [], timeToSee = [],
         lastUpdated = ''2025-07-20 09:05:07''\<rparr>],
       catalogLog = [], sends = [''9876543210@c.us''], fetches = 2, skips = 0, isRunning = False\<rparr>,
      tasks_v1 = [Done_v1, Done_v1]\<rparr> \<and>
   run_v2
     (Invoke True #
      replicate 5 (Resume 0
       \<lparr>fetchResult = [\<lparr>leadName = ''Asha'', leadPhone = ''9876543210'', leadSendCatalog = True\<rparr>], logRead = None,
        leadRun = \<lparr>processingAtStart = True, processingAtEnd = True, clientReady = True,
       sendWelcome = Some (Error ''Evaluation failed: timeout''), sendCatalog = Some (Error ''Evaluation failed: timeout''),
       sendLocation = None, logWelcome = None, logCatalog = None, logFailure = None,
       readLogs = None,
       clock = \<lparr>fullYear = 2025, monthIndex = 6, dayOfMonth = 20, hours = 9, minutes = 5,
                 seconds = 7, timeValue = 1752982507000\<rparr>,
       csv = (\<lambda>content.
            if content =
               ''Phone,Name,Timestamp,Status'' @ [CHR 0x0A] @
               ''919876543210,Asha,2025-07-20 09:05:07,Failed'' @ [CHR 0x0A]
            then [[(''Phone'', ''919876543210''), (''Name'', ''Asha''),
                      (''Timestamp'', ''2025-07-20 09:05:07''), (''Status'', ''Failed'')]]
            else [])\<rparr>\<rparr>) @
      Invoke True #
      replicate 5 (Resume 1
       \<lparr>fetchResult = [\<lparr>leadName = ''Asha'', leadPhone = ''9876543210'', leadSendCatalog = True\<rparr>], logRead = None,
        leadRun = \<lparr>processingAtStart = True, processingAtEnd = True, clientReady = True,
       sendWelcome = None, sendCatalog = None,
       sendLocation = None, logWelcome = None, logCatalog = None, logFailure = None,
       readLogs = None,
       clock = \<lparr>fullYear = 2025, monthIndex = 6, dayOfMonth = 20, hours = 9, minutes = 5,
                 seconds = 7, timeValue = 1752982507000\<rparr>,
       csv = (\<lambda>content.
            if content =
               ''Phone,Name,Timestamp,Status'' @ [CHR 0x0A] @
               ''919876543210,Asha,2025-07-20 09:05:07,Failed'' @ [CHR 0x0A]
            then [[(''Phone'', ''919876543210''), (''Name'', ''Asha''),
                      (''Timestamp'', ''2025-07-20 09:05:07''), (''Status'', ''Failed'')]]
            else [])\<rparr>\<rparr>))
     \<lparr>world_v2 =
        \<lparr>processingLocks = {}, messageSendingLocks = {}, mainLog = [],
       catalogLog = [], sends = [], fetches = 0, skips = 0, isRunning = False\<rparr>,
      tasks_v2 = []\<rparr>
   = \<lparr>world_v2 =
        \<lparr>processingLocks = {}, messageSendingLocks = {}, mainLog = [\<lparr>phone = ''919876543210'', name = ''Asha'', timestamp = ''2025-07-20 09:05:07'',
         status = ''Failed'', seenTimestamp = [], timeToSee = [],
         lastUpdated = ''2025-07-20 09:05:07''\<rparr>],
       catalogLog = [], sends = [''919876543210@c.us'', ''919876543210@c.us''], fetches = 2, skips = 0, isRunning = False\<rparr>,
      tasks_v2 = [Done_v2, Done_v2]\<rparr> \<and>
   run_v2
     (Invoke True #
      replicate 5 (Resume 0
       \<lparr>fetchResult = [\<lparr>leadName = ''Asha'', leadPhone = ''9876543210'', leadSendCatalog = True\<rparr>], logRead = None,
        leadRun = \<lparr>processingAtStart = True, processingAtEnd = True, clientReady = True,
       sendWelcome = None, sendCatalog = Some (Error ''Evaluation failed: timeout''),
       sendLocation = None, logWelcome = None, logCatalog = None, logFailure = None,
       readLogs = None,
       clock = \<lparr>fullYear = 2025, monthIndex = 6, dayOfMonth = 20, hours = 9, minutes = 5,
                 seconds = 7, timeValue = 1752982507000\<rparr>,
       csv = (\<lambda>content.
            if content =
               ''Phone,Name,Timestamp,Status'' @ [CHR 0x0A] @
               ''919876543210,Asha,2025-07-20 09:05:07,Sent'' @ [CHR 0x0A] @
               ''919876543210,Asha,2025-07-20 09:05:07,Failed'' @ [CHR 0x0A]
            then [[(''Phone'', ''919876543210''), (''Name'', ''Asha''),
                      (''Timestamp'', ''2025-07-20 09:05:07''), (''Status'', ''Sent'')],
                     [(''Phone'', ''919876543210''), (''Name'', ''Asha''),
                      (''Timestamp'', ''2025-07-20 09:05:07''), (''Status'', ''Failed'')]]
            else [])\<rparr>\<rparr>) @
      Invoke True #
      replicate 5 (Resume 1
       \<lparr>fetchResult = [\<lparr>leadName = ''Asha'', leadPhone = ''9876543210'', leadSendCatalog = True\<rparr>], logRead = None,
        leadRun = \<lparr>processingAtStart = True, processingAtEnd = True, clientReady = True,
       sendWelcome = None, sendCatalog = None,
       sendLocation = None, logWelcome = None, logCatalog = None, logFailure = None,
       readLogs = None,
       clock = \<lparr>fullYear = 2025, monthIndex = 6, dayOfMonth = 20, hours = 9, minutes = 5,
                 seconds = 7, timeValue = 1752982507000\<rparr>,
       csv = (\<lambda>content.
            if content =
               ''Phone,Name,Timestamp,Status'' @ [CHR 0x0A] @
               ''919876543210,Asha,2025-07-20 09:05:07,Sent'' @ [CHR 0x0A] @
               ''919876543210,Asha,2025-07-20 09:05:07,Failed'' @ [CHR 0x0A]
            then [[(''Phone'', ''919876543210''), (''Name'', ''Asha''),
                      (''Timestamp'', ''2025-07-20 09:05:07''), (''Status'', ''Sent'')],
                     [(''Phone'', ''919876543210''), (''Name'', ''Asha''),
                      (''Timestamp'', ''2025-07-20 09:05:07''), (''Status'', ''Failed'')]]
            else [])\<rparr>\<rparr>))
     \<lparr>world_v2 =
        \<lparr>processingLocks = {}, messageSendingLocks = {}, mainLog = [],
       catalogLog = [], sends = [], fetches = 0, skips = 0, isRunning = False\<rparr>,
      tasks_v2 = []\<rparr>
   = \<lparr>world_v2 =
        \<lparr>processingLocks = {}, messageSendingLocks = {}, mainLog = [\<lparr>phone = ''919876543210'', name = ''Asha'', timestamp = ''2025-07-20 09:05:07'',
         status = ''Sent'', seenTimestamp = [], timeToSee = [],
         lastUpdated = ''2025-07-20 09:05:07''\<rparr>,
         \<lparr>phone = ''919876543210'', name = ''Asha'', timestamp = ''2025-07-20 09:05:07'',
         status = ''Failed'', seenTimestamp = [], timeToSee = [],
         lastUpdated = ''2025-07-20 09:05:07''\<rparr>],
       catalogLog = [], sends = [''919876543210@c.us'', ''919876543210@c.us''], fetches = 2, skips = 0, isRunning = False\<rparr>,
      tasks_v2 = [Done_v2, Done_v2]\<rparr>"
  by code_simp

subsection \<open>Facts about invocations in flight\<close>

lemma resume_v2_active:
  assumes "t \<noteq> Done_v2" and "resume_v2 r t w = (t', w')"
  shows "(t' \<noteq> Done_v2 \<and> isRunning w' = isRunning w) \<or> (t' = Done_v2 \<and> \<not> isRunning w')"
proof (cases t)
  case AwaitFetch_v2
  then show ?thesis using assms by auto
next
  case (AwaitSentPhones_v2 leads)
  then show ?thesis using assms by (auto simp: finish_v2_def split: option.splits)
next
  case (AwaitCatalogPhones_v2 leads sp)
  then show ?thesis using assms by (auto simp: finish_v2_def split: option.splits)
next
  case (Dispatching_v2 leads sp)
  show ?thesis
  proof (cases leads)
    case Nil
    then show ?thesis using assms Dispatching_v2 by (auto simp: finish_v2_def)
  next
    case (Cons l ls)
    obtain c w2 sp2 where s: "leadStep_v2 (leadRun r) l w sp = (c, w2, sp2)"
      by (cases "leadStep_v2 (leadRun r) l w sp") auto
    have k: "isRunning w2 = isRunning w"
      using leadStep_v2_keeps [of "leadRun r" l w sp] s by simp
    show ?thesis
      using assms Dispatching_v2 Cons s k by (cases c) (auto simp: finish_v2_def)
  qed
next
  case Done_v2
  then show ?thesis using assms by simp
qed

text \<open>
  The invariant of the later revision: the running flag is set exactly when an
  invocation is in flight, and then only one is.
\<close>

lemma step_v2_single:
  assumes "(\<not> isRunning (world_v2 sys) \<and> (\<forall>j<length (tasks_v2 sys). tasks_v2 sys ! j = Done_v2)) \<or>
           (isRunning (world_v2 sys) \<and>
            (\<exists>i<length (tasks_v2 sys). tasks_v2 sys ! i \<noteq> Done_v2 \<and>
               (\<forall>j<length (tasks_v2 sys). j \<noteq> i \<longrightarrow> tasks_v2 sys ! j = Done_v2)))"
  shows "(\<not> isRunning (world_v2 (step_v2 sys ev)) \<and>
          (\<forall>j<length (tasks_v2 (step_v2 sys ev)). tasks_v2 (step_v2 sys ev) ! j = Done_v2)) \<or>
         (isRunning (world_v2 (step_v2 sys ev)) \<and>
          (\<exists>i<length (tasks_v2 (step_v2 sys ev)). tasks_v2 (step_v2 sys ev) ! i \<noteq> Done_v2 \<and>
             (\<forall>j<length (tasks_v2 (step_v2 sys ev)). j \<noteq> i \<longrightarrow>
                  tasks_v2 (step_v2 sys ev) ! j = Done_v2)))"
proof (cases ev)
  case (Invoke ready)
  let ?ts = "tasks_v2 sys"
  show ?thesis
  proof (cases "isRunning (world_v2 sys)")
    case True
    then obtain i where i: "i < length ?ts" "?ts ! i \<noteq> Done_v2"
        "\<forall>j<length ?ts. j \<noteq> i \<longrightarrow> ?ts ! j = Done_v2"
      using assms by auto
    have e: "step_v2 sys ev =
               sys\<lparr>world_v2 := (world_v2 sys)\<lparr>skips := skips (world_v2 sys) + 1\<rparr>,
                   tasks_v2 := ?ts @ [Done_v2]\<rparr>"
      using True Invoke by (simp add: step_v2_def invoke_v2_def Let_def)
    have "i < length (?ts @ [Done_v2]) \<and> (?ts @ [Done_v2]) ! i \<noteq> Done_v2 \<and>
          (\<forall>j<length (?ts @ [Done_v2]). j \<noteq> i \<longrightarrow> (?ts @ [Done_v2]) ! j = Done_v2)"
      using i by (auto simp: nth_append)
    then show ?thesis using True e by auto
  next
    case False
    then have d: "\<forall>j<length ?ts. ?ts ! j = Done_v2"
      using assms by auto
    show ?thesis
    proof (cases ready)
      case True
      have e: "step_v2 sys ev =
                 sys\<lparr>world_v2 := (world_v2 sys)\<lparr>isRunning := True\<rparr>,
                     tasks_v2 := ?ts @ [AwaitFetch_v2]\<rparr>"
        using True False Invoke by (simp add: step_v2_def invoke_v2_def Let_def)
      have "length ?ts < length (?ts @ [AwaitFetch_v2]) \<and>
            (?ts @ [AwaitFetch_v2]) ! length ?ts \<noteq> Done_v2 \<and>
            (\<forall>j<length (?ts @ [AwaitFetch_v2]). j \<noteq> length ?ts \<longrightarrow>
                (?ts @ [AwaitFetch_v2]) ! j = Done_v2)"
        using d by (auto simp: nth_append)
      then show ?thesis using e by auto
    next
      case r: False
      have e: "step_v2 sys ev =
                 sys\<lparr>world_v2 := (world_v2 sys)\<lparr>isRunning := False\<rparr>,
                     tasks_v2 := ?ts @ [Done_v2]\<rparr>"
        using r False Invoke by (simp add: step_v2_def invoke_v2_def Let_def)
      have "\<forall>j<length (?ts @ [Done_v2]). (?ts @ [Done_v2]) ! j = Done_v2"
        using d by (auto simp: nth_append)
      then show ?thesis using e by auto
    qed
  qed
next
  case (Resume i r)
  let ?ts = "tasks_v2 sys"
  show ?thesis
  proof (cases "i < length ?ts")
    case False
    then have "step_v2 sys ev = sys" using Resume by (simp add: step_v2_def)
    then show ?thesis using assms by simp
  next
    case True
    obtain t' w' where s: "resume_v2 r (?ts ! i) (world_v2 sys) = (t', w')"
      by (cases "resume_v2 r (?ts ! i) (world_v2 sys)")
    have e: "step_v2 sys ev = sys\<lparr>world_v2 := w', tasks_v2 := ?ts[i := t']\<rparr>"
      using True Resume s by (simp add: step_v2_def)
    show ?thesis
    proof (cases "?ts ! i = Done_v2")
      case d: True
      then have "t' = Done_v2 \<and> w' = world_v2 sys" using s by simp
      then have "step_v2 sys ev = sys" using e d True by (simp add: list_update_same_conv [THEN iffD2])
      then show ?thesis using assms by simp
    next
      case a: False
      then have run: "isRunning (world_v2 sys)" using assms True by auto
      have others: "\<forall>j<length ?ts. j \<noteq> i \<longrightarrow> ?ts ! j = Done_v2"
        using assms run a True by auto
      from resume_v2_active [OF a s]
      show ?thesis
      proof
        assume c: "t' \<noteq> Done_v2 \<and> isRunning w' = isRunning (world_v2 sys)"
        have "i < length (?ts[i := t']) \<and> ?ts[i := t'] ! i \<noteq> Done_v2 \<and>
              (\<forall>j<length (?ts[i := t']). j \<noteq> i \<longrightarrow> ?ts[i := t'] ! j = Done_v2)"
          using c True others by simp
        then show ?thesis using e c run by auto
      next
        assume c: "t' = Done_v2 \<and> \<not> isRunning w'"
        have "\<forall>j<length (?ts[i := t']). ?ts[i := t'] ! j = Done_v2"
          using c True others by (simp add: nth_list_update)
        then show ?thesis using e c by auto
      qed
    qed
  qed
qed

lemma run_v2_single:
  assumes "(\<not> isRunning (world_v2 sys) \<and> (\<forall>j<length (tasks_v2 sys). tasks_v2 sys ! j = Done_v2)) \<or>
           (isRunning (world_v2 sys) \<and>
            (\<exists>i<length (tasks_v2 sys). tasks_v2 sys ! i \<noteq> Done_v2 \<and>
               (\<forall>j<length (tasks_v2 sys). j \<noteq> i \<longrightarrow> tasks_v2 sys ! j = Done_v2)))"
  shows "(\<not> isRunning (world_v2 (run_v2 evs sys)) \<and>
          (\<forall>j<length (tasks_v2 (run_v2 evs sys)). tasks_v2 (run_v2 evs sys) ! j = Done_v2)) \<or>
         (isRunning (world_v2 (run_v2 evs sys)) \<and>
          (\<exists>i<length (tasks_v2 (run_v2 evs sys)). tasks_v2 (run_v2 evs sys) ! i \<noteq> Done_v2 \<and>
             (\<forall>j<length (tasks_v2 (run_v2 evs sys)). j \<noteq> i \<longrightarrow>
                  tasks_v2 (run_v2 evs sys) ! j = Done_v2)))"
  using assms
proof (induction evs arbitrary: sys)
  case Nil
  then show ?case by (simp add: run_v2_def)
next
  case (Cons ev evs)
  have "run_v2 (ev # evs) sys = run_v2 evs (step_v2 sys ev)"
    by (simp add: run_v2_def)
  then show ?case
    using Cons.IH [OF step_v2_single [OF Cons.prems]] by simp
qed

text \<open>
  The later revision, from a start with the flag clear and no invocation made, after
  any sequence of calls and resumptions: at most one invocation is in flight, and
  while one is, a call of \<^verbatim>\<open>processLeads\<close> counts one skip and is done at once,
  with no fetch, no send and no log row.
\<close>

lemma single_cycle_v2:
  assumes "\<not> isRunning w0"
  shows
    "(\<forall>i j. i < length (tasks_v2 (run_v2 evs \<lparr>world_v2 = w0, tasks_v2 = []\<rparr>)) \<and>
            j < length (tasks_v2 (run_v2 evs \<lparr>world_v2 = w0, tasks_v2 = []\<rparr>)) \<and>
            tasks_v2 (run_v2 evs \<lparr>world_v2 = w0, tasks_v2 = []\<rparr>) ! i \<noteq> Done_v2 \<and>
            tasks_v2 (run_v2 evs \<lparr>world_v2 = w0, tasks_v2 = []\<rparr>) ! j \<noteq> Done_v2
            \<longrightarrow> i = j) \<and>
     ((\<exists>i<length (tasks_v2 (run_v2 evs \<lparr>world_v2 = w0, tasks_v2 = []\<rparr>)).
          tasks_v2 (run_v2 evs \<lparr>world_v2 = w0, tasks_v2 = []\<rparr>) ! i \<noteq> Done_v2)
      \<longrightarrow>
      step_v2 (run_v2 evs \<lparr>world_v2 = w0, tasks_v2 = []\<rparr>) (Invoke ready) =
        (run_v2 evs \<lparr>world_v2 = w0, tasks_v2 = []\<rparr>)
          \<lparr>world_v2 := (world_v2 (run_v2 evs \<lparr>world_v2 = w0, tasks_v2 = []\<rparr>))
             \<lparr>skips := skips (world_v2 (run_v2 evs \<lparr>world_v2 = w0, tasks_v2 = []\<rparr>)) + 1\<rparr>,
           tasks_v2 := tasks_v2 (run_v2 evs \<lparr>world_v2 = w0, tasks_v2 = []\<rparr>) @ [Done_v2]\<rparr>)"
proof -
  let ?sys = "run_v2 evs \<lparr>world_v2 = w0, tasks_v2 = []\<rparr>"
  have inv: "(\<not> isRunning (world_v2 ?sys) \<and> (\<forall>j<length (tasks_v2 ?sys). tasks_v2 ?sys ! j = Done_v2)) \<or>
             (isRunning (world_v2 ?sys) \<and>
              (\<exists>i<length (tasks_v2 ?sys). tasks_v2 ?sys ! i \<noteq> Done_v2 \<and>
                 (\<forall>j<length (tasks_v2 ?sys). j \<noteq> i \<longrightarrow> tasks_v2 ?sys ! j = Done_v2)))"
    using run_v2_single [of "\<lparr>world_v2 = w0, tasks_v2 = []\<rparr>" evs] assms by simp
  have one: "\<forall>i j. i < length (tasks_v2 ?sys) \<and> j < length (tasks_v2 ?sys) \<and>
                   tasks_v2 ?sys ! i \<noteq> Done_v2 \<and> tasks_v2 ?sys ! j \<noteq> Done_v2 \<longrightarrow> i = j"
    using inv by metis
  have "(\<exists>i<length (tasks_v2 ?sys). tasks_v2 ?sys ! i \<noteq> Done_v2) \<longrightarrow> isRunning (world_v2 ?sys)"
    using inv by auto
  then have skip: "(\<exists>i<length (tasks_v2 ?sys). tasks_v2 ?sys ! i \<noteq> Done_v2) \<longrightarrow>
      step_v2 ?sys (Invoke ready) =
        ?sys\<lparr>world_v2 := (world_v2 ?sys)\<lparr>skips := skips (world_v2 ?sys) + 1\<rparr>,
             tasks_v2 := tasks_v2 ?sys @ [Done_v2]\<rparr>"
    by (simp add: step_v2_def invoke_v2_def Let_def)
  show ?thesis using one skip by (rule conjI)
qed

text \<open>
  C2 on the earlier revision, whose \<^verbatim>\<open>processLeads\<close> has no guard: a second call
  made while the first invocation waits for the sent set goes on to fetch the leads,
  both invocations load a sent set without the lead, and each of them sends the
  welcome message to the lead and logs it. The later revision, on the same events,
  counts one skip for the second call, fetches once, and dispatches the lead once
  (its welcome and its catalog). (The logs are read while they have no entry, so the
  reader has no row to yield.)
\<close>

theorem overlapping_cycles_v1:
  "run_v1
     [Invoke True,
      Resume 0
       \<lparr>fetchResult = [\<lparr>leadName = ''Asha'', leadPhone = ''9876543210'', leadSendCatalog = True\<rparr>], logRead = None,
        leadRun = \<lparr>processingAtStart = True, processingAtEnd = True, clientReady = True,
       sendWelcome = None, sendCatalog = None,
       sendLocation = None, logWelcome = None, logCatalog = None, logFailure = None,
       readLogs = None,
       clock = \<lparr>fullYear = 2025, monthIndex = 6, dayOfMonth = 20, hours = 9, minutes = 5,
                 seconds = 7, timeValue = 1752982507000\<rparr>,
       csv = (\<lambda>content. [])\<rparr>\<rparr>,
      Invoke True,
      Resume 1
       \<lparr>fetchResult = [\<lparr>leadName = ''Asha'', leadPhone = ''9876543210'', leadSendCatalog = True\<rparr>], logRead = None,
        leadRun = \<lparr>processingAtStart = True, processingAtEnd = True, clientReady = True,
       sendWelcome = None, sendCatalog = None,
       sendLocation = None, logWelcome = None, logCatalog = None, logFailure = None,
       readLogs = None,
       clock = \<lparr>fullYear = 2025, monthIndex = 6, dayOfMonth = 20, hours = 9, minutes = 5,
                 seconds = 7, timeValue = 1752982507000\<rparr>,
       csv = (\<lambda>content. [])\<rparr>\<rparr>,
      Resume 0
       \<lparr>fetchResult = [\<lparr>leadName = ''Asha'', leadPhone = ''9876543210'', leadSendCatalog = True\<rparr>], logRead = None,
        leadRun = \<lparr>processingAtStart = True, processingAtEnd = True, clientReady = True,
       sendWelcome = None, sendCatalog = None,
       sendLocation = None, logWelcome = None, logCatalog = None, logFailure = None,
       readLogs = None,
       clock = \<lparr>fullYear = 2025, monthIndex = 6, dayOfMonth = 20, hours = 9, minutes = 5,
                 seconds = 7, timeValue = 1752982507000\<rparr>,
       csv = (\<lambda>content. [])\<rparr>\<rparr>,
      Resume 0
       \<lparr>fetchResult = [\<lparr>leadName = ''Asha'', leadPhone = ''9876543210'', leadSendCatalog = True\<rparr>], logRead = None,
        leadRun = \<lparr>processingAtStart = True, processingAtEnd = True, clientReady = True,
       sendWelcome = None, sendCatalog = None,
       sendLocation = None, logWelcome = None, logCatalog = None, logFailure = None,
       readLogs = None,
       clock = \<lparr>fullYear = 2025, monthIndex = 6, dayOfMonth = 20, hours = 9, minutes = 5,
                 seconds = 7, timeValue = 1752982507000\<rparr>,
       csv = (\<lambda>content. [])\<rparr>\<rparr>,
      Resume 1
       \<lparr>fetchResult = [\<lparr>leadName = ''Asha'', leadPhone = ''9876543210'', leadSendCatalog = True\<rparr>], logRead = None,
        leadRun = \<lparr>processingAtStart = True, processingAtEnd = True, clientReady = True,
       sendWelcome = None, sendCatalog = None,
       sendLocation = None, logWelcome = None, logCatalog = None, logFailure = None,
       readLogs = None,
       clock = \<lparr>fullYear = 2025, monthIndex = 6, dayOfMonth = 20, hours = 9, minutes = 5,
                 seconds = 7, timeValue = 1752982507000\<rparr>,
       csv = (\<lambda>content. [])\<rparr>\<rparr>,
      Resume 1
       \<lparr>fetchResult = [\<lparr>leadName = ''Asha'', leadPhone = ''9876543210'', leadSendCatalog = True\<rparr>], logRead = None,
        leadRun = \<lparr>processingAtStart = True, processingAtEnd = True, clientReady = True,
       sendWelcome = None, sendCatalog = None,
       sendLocation = None, logWelcome = None, logCatalog = None, logFailure = None,
       readLogs = None,
       clock = \<lparr>fullYear = 2025, monthIndex = 6, dayOfMonth = 20, hours = 9, minutes = 5,
                 seconds = 7, timeValue = 1752982507000\<rparr>,
       csv = (\<lambda>content. [])\<rparr>\<rparr>,
      Resume 0
       \<lparr>fetchResult = [\<lparr>leadName = ''Asha'', leadPhone = ''9876543210'', leadSendCatalog = True\<rparr>], logRead = None,
        leadRun = \<lparr>processingAtStart = True, processingAtEnd = True, clientReady = True,
       sendWelcome = None, sendCatalog = None,
       sendLocation = None, logWelcome = None, logCatalog = None, logFailure = None,
       readLogs = None,
       clock = \<lparr>fullYear = 2025, monthIndex = 6, dayOfMonth = 20, hours = 9, minutes = 5,
                 seconds = 7, timeValue = 1752982507000\<rparr>,
       csv = (\<lambda>content. [])\<rparr>\<rparr>,
      Resume 1
       \<lparr>fetchResult = [\<lparr>leadName = ''Asha'', leadPhone = ''9876543210'', leadSendCatalog = True\<rparr>], logRead = None,
        leadRun = \<lparr>processingAtStart = True, processingAtEnd = True, clientReady = True,
       sendWelcome = None, sendCatalog = None,
       sendLocation = None, logWelcome = None, logCatalog = None, logFailure = None,
       readLogs = None,
       clock = \<lparr>fullYear = 2025, monthIndex = 6, dayOfMonth = 20, hours = 9, minutes = 5,
                 seconds = 7, timeValue = 1752982507000\<rparr>,
       csv = (\<lambda>content. [])\<rparr>\<rparr>]
     \<lparr>world_v1 =
        \<lparr>processingLocks = {}, messageSendingLocks = {}, mainLog = [],
       catalogLog = [], sends = [], fetches = 0, skips = 0, isRunning = False\<rparr>,
      tasks_v1 = []\<rparr>
   = \<lparr>world_v1 =
        \<lparr>processingLocks = {}, messageSendingLocks = {}, mainLog = [\<lparr>phone = ''919876543210'', name = ''Asha'', timestamp = ''2025-07-20 09:05:07'',
         status = ''Sent'', seenTimestamp = [], timeToSee = [],
         lastUpdated = ''2025-07-20 09:05:07''\<rparr>,
         \<lparr>phone = ''919876543210'', name = ''Asha'', timestamp = ''2025-07-20 09:05:07'',
         status = ''Sent'', seenTimestamp = [], timeToSee = [],
         lastUpdated = ''2025-07-20 09:05:07''\<rparr>],
       catalogLog = [], sends = [''9876543210@c.us'', ''9876543210@c.us''], fetches = 2, skips = 0, isRunning = False\<rparr>,
      tasks_v1 =
        [FirstPass_v1 []
           [\<lparr>leadName = ''Asha'', leadPhone = ''9876543210'', leadSendCatalog = True\<rparr>]
           {''919876543210''} {},
         FirstPass_v1 []
           [\<lparr>leadName = ''Asha'', leadPhone = ''9876543210'', leadSendCatalog = True\<rparr>]
           {''919876543210''} {}]\<rparr> \<and>
   run_v2
     [Invoke True,
      Resume 0
       \<lparr>fetchResult = [\<lparr>leadName = ''Asha'', leadPhone = ''9876543210'', leadSendCatalog = True\<rparr>], logRead = None,
        leadRun = \<lparr>processingAtStart = True, processingAtEnd = True, clientReady = True,
       sendWelcome = None, sendCatalog = None,
       sendLocation = None, logWelcome = None, logCatalog = None, logFailure = None,
       readLogs = None,
       clock = \<lparr>fullYear = 2025, monthIndex = 6, dayOfMonth = 20, hours = 9, minutes = 5,
                 seconds = 7, timeValue = 1752982507000\<rparr>,
       csv = (\<lambda>content. [])\<rparr>\<rparr>,
      Invoke True,
      Resume 1
       \<lparr>fetchResult = [\<lparr>leadName = ''Asha'', leadPhone = ''9876543210'', leadSendCatalog = True\<rparr>], logRead = None,
        leadRun = \<lparr>processingAtStart = True, processingAtEnd = True, clientReady = True,
       sendWelcome = None, sendCatalog = None,
       sendLocation = None, logWelcome = None, logCatalog = None, logFailure = None,
       readLogs = None,
       clock = \<lparr>fullYear = 2025, monthIndex = 6, dayOfMonth = 20, hours = 9, minutes = 5,
                 seconds = 7, timeValue = 1752982507000\<rparr>,
       csv = (\<lambda>content. [])\<rparr>\<rparr>,
      Resume 0
       \<lparr>fetchResult = [\<lparr>leadName = ''Asha'', leadPhone = ''9876543210'', leadSendCatalog = True\<rparr>], logRead = None,
        leadRun = \<lparr>processingAtStart = True, processingAtEnd = True, clientReady = True,
       sendWelcome = None, sendCatalog = None,
       sendLocation = None, logWelcome = None, logCatalog = None, logFailure = None,
       readLogs = None,
       clock = \<lparr>fullYear = 2025, monthIndex = 6, dayOfMonth = 20, hours = 9, minutes = 5,
                 seconds = 7, timeValue = 1752982507000\<rparr>,
       csv = (\<lambda>content. [])\<rparr>\<rparr>,
      Resume 0
       \<lparr>fetchResult = [\<lparr>leadName = ''Asha'', leadPhone = ''9876543210'', leadSendCatalog = True\<rparr>], logRead = None,
        leadRun = \<lparr>processingAtStart = True, processingAtEnd = True, clientReady = True,
       sendWelcome = None, sendCatalog = None,
       sendLocation = None, logWelcome = None, logCatalog = None, logFailure = None,
       readLogs = None,
       clock = \<lparr>fullYear = 2025, monthIndex = 6, dayOfMonth = 20, hours = 9, minutes = 5,
                 seconds = 7, timeValue = 1752982507000\<rparr>,
       csv = (\<lambda>content. [])\<rparr>\<rparr>,
      Resume 1
       \<lparr>fetchResult = [\<lparr>leadName = ''Asha'', leadPhone = ''9876543210'', leadSendCatalog = True\<rparr>], logRead = None,
        leadRun = \<lparr>processingAtStart = True, processingAtEnd = True, clientReady = True,
       sendWelcome = None, sendCatalog = None,
       sendLocation = None, logWelcome = None, logCatalog = None, logFailure = None,
       readLogs = None,
       clock = \<lparr>fullYear = 2025, monthIndex = 6, dayOfMonth = 20, hours = 9, minutes = 5,
                 seconds = 7, timeValue = 1752982507000\<rparr>,
       csv = (\<lambda>content. [])\<rparr>\<rparr>,
      Resume 1
       \<lparr>fetchResult = [\<lparr>leadName = ''Asha'', leadPhone = ''9876543210'', leadSendCatalog = True\<rparr>], logRead = None,
        leadRun = \<lparr>processingAtStart = True, processingAtEnd = True, clientReady = True,
       sendWelcome = None, sendCatalog = None,
       sendLocation = None, logWelcome = None, logCatalog = None, logFailure = None,
       readLogs = None,
       clock = \<lparr>fullYear = 2025, monthIndex = 6, dayOfMonth = 20, hours = 9, minutes = 5,
                 seconds = 7, timeValue = 1752982507000\<rparr>,
       csv = (\<lambda>content. [])\<rparr>\<rparr>,
      Resume 0
       \<lparr>fetchResult = [\<lparr>leadName = ''Asha'', leadPhone = ''9876543210'', leadSendCatalog = True\<rparr>], logRead = None,
        leadRun = \<lparr>processingAtStart = True, processingAtEnd = True, clientReady = True,
       sendWelcome = None, sendCatalog = None,
       sendLocation = None, logWelcome = None, logCatalog = None, logFailure = None,
       readLogs = None,
       clock = \<lparr>fullYear = 2025, monthIndex = 6, dayOfMonth = 20, hours = 9, minutes = 5,
                 seconds = 7, timeValue = 1752982507000\<rparr>,
       csv = (\<lambda>content. [])\<rparr>\<rparr>,
      Resume 1
       \<lparr>fetchResult = [\<lparr>leadName = ''Asha'', leadPhone = ''9876543210'', leadSendCatalog = True\<rparr>], logRead = None,
        leadRun = \<lparr>processingAtStart = True, processingAtEnd = True, clientReady = True,
       sendWelcome = None, sendCatalog = None,
       sendLocation = None, logWelcome = None, logCatalog = None, logFailure = None,
       readLogs = None,
       clock = \<lparr>fullYear = 2025, monthIndex = 6, dayOfMonth = 20, hours = 9, minutes = 5,
                 seconds = 7, timeValue = 1752982507000\<rparr>,
       csv = (\<lambda>content. [])\<rparr>\<rparr>]
     \<lparr>world_v2 =
        \<lparr>processingLocks = {}, messageSendingLocks = {}, mainLog = [],
       catalogLog = [], sends = [], fetches = 0, skips = 0, isRunning = False\<rparr>,
      tasks_v2 = []\<rparr>
   = \<lparr>world_v2 =
        \<lparr>processingLocks = {}, messageSendingLocks = {}, mainLog = [\<lparr>phone = ''919876543210'', name = ''Asha'', timestamp = ''2025-07-20 09:05:07'',
         status = ''Sent'', seenTimestamp = [], timeToSee = [],
         lastUpdated = ''2025-07-20 09:05:07''\<rparr>],
       catalogLog = [\<lparr>phone = ''919876543210'', name = ''Asha'', timestamp = ''2025-07-20 09:05:07'',
         status = ''Sent'', seenTimestamp = [], timeToSee = [],
         lastUpdated = ''2025-07-20 09:05:07''\<rparr>], sends = [''919876543210@c.us'', ''919876543210@c.us''], fetches = 1, skips = 1, isRunning = True\<rparr>,
      tasks_v2 = [Dispatching_v2 [] {''919876543210''}, Done_v2]\<rparr>"
  by code_simp

end
